theory Spec2Isabelle
  imports Main
begin

section \<open>Data model (app/models.py)\<close>

text \<open>
  Primary keys are the UUID strings of \<^verbatim>\<open>generate_uuid\<close>. A fresh key is drawn at
  random by the source; the model takes it as an argument of the operation that
  creates the row.
\<close>

type_synonym uuid = string

text \<open>
  A Python \<^verbatim>\<open>datetime\<close> is either offset-naive or offset-aware. The payload is the
  reading in microseconds: the UTC instant of an aware value, the wall-clock fields
  of a naive one. A \<^verbatim>\<open>timedelta\<close> is a number of microseconds. The clock
  (\<^verbatim>\<open>datetime.now(timezone.utc)\<close>) is an argument \<open>now\<close> of every operation, one
  reading per operation.
\<close>

datatype datetime = Naive int | Aware int

type_synonym timedelta = int

text \<open>The two provider tokens and the two quota states admitted by the table constraints
  \<^verbatim>\<open>valid_provider\<close>, \<^verbatim>\<open>valid_estado\<close> and \<^verbatim>\<open>valid_motivo\<close>.\<close>

datatype provider = Anthropic | Gemini

datatype estado = Disponible | Agotada

datatype motivo = Manual | Cuota_agotada

datatype classification = Cl_disponible | Cl_limite_parcial | Cl_limite_total

text \<open>Exceptions raised by the modelled code. Messages are the source's, without accents.\<close>

datatype error = ValueError string | TypeError | IndexError

record account =
  a_id :: uuid
  user_id :: uuid
  email_google :: string
  nombre :: "string option"
  activa :: bool
  veces_usada :: "int option"
  tiempo_total_uso :: "timedelta option"
  created_at :: datetime

record quota =
  q_id :: uuid
  q_account_id :: uuid
  q_provider :: provider
  estado :: estado
  proximo_reset :: "datetime option"
  agotada_en :: "datetime option"

record session =
  s_id :: uuid
  s_account_id :: uuid
  s_provider :: provider
  inicio :: datetime
  fin :: "datetime option"
  duracion :: "timedelta option"
  motivo_fin :: "motivo option"

text \<open>The three tables. A row is a position of its list; queries without
  \<^verbatim>\<open>ORDER BY\<close> return rows in list order.\<close>

record store =
  accounts :: "account list"
  quotas :: "quota list"
  sessions :: "session list"

subsection \<open>Python datetime arithmetic\<close>

definition datetime_now_utc :: "int \<Rightarrow> datetime" where
  "datetime_now_utc now = Aware now"

fun tzinfo :: "datetime \<Rightarrow> bool" where
  "tzinfo (Naive _) = False"
| "tzinfo (Aware _) = True"

fun replace_tzinfo_utc :: "datetime \<Rightarrow> datetime" where
  "replace_tzinfo_utc (Naive t) = Aware t"
| "replace_tzinfo_utc (Aware t) = Aware t"

text \<open>\<^verbatim>\<open>a >= b\<close>: ordering a naive and an aware datetime raises \<^verbatim>\<open>TypeError\<close>.\<close>

fun datetime_ge :: "datetime \<Rightarrow> datetime \<Rightarrow> error + bool" where
  "datetime_ge (Aware a) (Aware b) = Inr (b \<le> a)"
| "datetime_ge (Naive a) (Naive b) = Inr (b \<le> a)"
| "datetime_ge (Aware a) (Naive b) = Inl TypeError"
| "datetime_ge (Naive a) (Aware b) = Inl TypeError"

text \<open>\<^verbatim>\<open>a - b\<close>: subtracting across the two kinds raises \<^verbatim>\<open>TypeError\<close> as well.\<close>

fun datetime_sub :: "datetime \<Rightarrow> datetime \<Rightarrow> error + timedelta" where
  "datetime_sub (Aware a) (Aware b) = Inr (a - b)"
| "datetime_sub (Naive a) (Naive b) = Inr (a - b)"
| "datetime_sub (Aware a) (Naive b) = Inl TypeError"
| "datetime_sub (Naive a) (Aware b) = Inl TypeError"

text \<open>The stored value of a timestamp, by which the database orders a column.\<close>

fun dt_value :: "datetime \<Rightarrow> int" where
  "dt_value (Naive t) = t"
| "dt_value (Aware t) = t"

subsection \<open>Quota\<close>

text \<open>\<^verbatim>\<open>Quota.reset\<close> and \<^verbatim>\<open>Quota.mark_exhausted\<close>: the row after the commit.\<close>

definition reset :: "quota \<Rightarrow> quota" where
  "reset q = q\<lparr>estado := Disponible, agotada_en := None, proximo_reset := None\<rparr>"

definition mark_exhausted :: "int \<Rightarrow> datetime \<Rightarrow> quota \<Rightarrow> quota" where
  "mark_exhausted now reset_time q =
     q\<lparr>estado := Agotada, agotada_en := Some (datetime_now_utc now),
       proximo_reset := Some reset_time\<rparr>"

text \<open>
  \<^verbatim>\<open>Quota.is_available\<close>: the answer (or the exception) and the row afterwards.
  \<^verbatim>\<open>now\<close> is aware from the start, so the \<^verbatim>\<open>replace\<close> of the aware branch
  leaves it as it is and the naive branch compares it with a naive \<^verbatim>\<open>reset_time\<close>.
\<close>

definition is_available :: "int \<Rightarrow> quota \<Rightarrow> (error + bool) \<times> quota" where
  "is_available now q =
     (if estado q = Disponible then (Inr True, q)
      else
        (case proximo_reset q of
           None \<Rightarrow> (Inr False, q)
         | Some reset_time \<Rightarrow>
             (let now0 = datetime_now_utc now;
                  now1 = (if tzinfo reset_time then replace_tzinfo_utc now0 else now0)
              in case datetime_ge now1 reset_time of
                   Inl e \<Rightarrow> (Inl e, q)
                 | Inr True \<Rightarrow> (Inr True, reset q)
                 | Inr False \<Rightarrow> (Inr False, q))))"

subsection \<open>Account\<close>

text \<open>The position of the first row that satisfies a filter (\<^verbatim>\<open>.first()\<close>,
  \<^verbatim>\<open>Query.get\<close>, and the \<^verbatim>\<open>for\<close> loops that return at the first match).\<close>

fun first_index :: "('a \<Rightarrow> bool) \<Rightarrow> 'a list \<Rightarrow> nat option" where
  "first_index P [] = None"
| "first_index P (x # xs) =
     (if P x then Some 0 else map_option Suc (first_index P xs))"

text \<open>\<^verbatim>\<open>get_anthropic_quota\<close>, \<^verbatim>\<open>get_gemini_quota\<close>: the account's first quota row of
  the provider, \<^verbatim>\<open>None\<close> when it has none.\<close>

definition get_anthropic_quota :: "account \<Rightarrow> store \<Rightarrow> nat option" where
  "get_anthropic_quota a s =
     first_index (\<lambda>q. q_account_id q = a_id a \<and> q_provider q = Anthropic) (quotas s)"

definition get_gemini_quota :: "account \<Rightarrow> store \<Rightarrow> nat option" where
  "get_gemini_quota a s =
     first_index (\<lambda>q. q_account_id q = a_id a \<and> q_provider q = Gemini) (quotas s)"

text \<open>Calling \<^verbatim>\<open>is_available\<close> on the quota row at position \<open>i\<close>; the row is written
  back, since the call may reset it.\<close>

definition quota_is_available :: "int \<Rightarrow> nat \<Rightarrow> store \<Rightarrow> (error + bool) \<times> store" where
  "quota_is_available now i s =
     (case is_available now (quotas s ! i) of
        (r, q') \<Rightarrow> (r, s\<lparr>quotas := (quotas s)[i := q']\<rparr>))"

definition is_anthropic_available :: "int \<Rightarrow> account \<Rightarrow> store \<Rightarrow> (error + bool) \<times> store" where
  "is_anthropic_available now a s =
     (case get_anthropic_quota a s of
        None \<Rightarrow> (Inr True, s)
      | Some i \<Rightarrow> quota_is_available now i s)"

definition is_gemini_available :: "int \<Rightarrow> account \<Rightarrow> store \<Rightarrow> (error + bool) \<times> store" where
  "is_gemini_available now a s =
     (case get_gemini_quota a s of
        None \<Rightarrow> (Inr True, s)
      | Some i \<Rightarrow> quota_is_available now i s)"

definition get_classification ::
  "int \<Rightarrow> account \<Rightarrow> store \<Rightarrow> (error + classification) \<times> store" where
  "get_classification now a s =
     (case is_anthropic_available now a s of
        (Inl e, s1) \<Rightarrow> (Inl e, s1)
      | (Inr anthropic_available, s1) \<Rightarrow>
          (case is_gemini_available now a s1 of
             (Inl e, s2) \<Rightarrow> (Inl e, s2)
           | (Inr gemini_available, s2) \<Rightarrow>
               (if anthropic_available \<and> gemini_available then (Inr Cl_disponible, s2)
                else if anthropic_available \<or> gemini_available then (Inr Cl_limite_parcial, s2)
                else (Inr Cl_limite_total, s2))))"

text \<open>
  \<^verbatim>\<open>Account.to_dict\<close>: the fields the engine's callers read. Building it evaluates the
  classification and then \<^verbatim>\<open>Quota.to_dict\<close> of each configured quota, which asks
  \<^verbatim>\<open>is_available\<close> once more; a missing quota is reported as available.
\<close>

record account_dict =
  d_account :: account
  d_classification :: classification
  d_anthropic_disponible :: bool
  d_gemini_disponible :: bool

definition account_to_dict :: "int \<Rightarrow> account \<Rightarrow> store \<Rightarrow> (error + account_dict) \<times> store" where
  "account_to_dict now a s =
     (case get_classification now a s of
        (Inl e, s1) \<Rightarrow> (Inl e, s1)
      | (Inr c, s1) \<Rightarrow>
          (case is_anthropic_available now a s1 of
             (Inl e, s2) \<Rightarrow> (Inl e, s2)
           | (Inr qa, s2) \<Rightarrow>
               (case is_gemini_available now a s2 of
                  (Inl e, s3) \<Rightarrow> (Inl e, s3)
                | (Inr qg, s3) \<Rightarrow>
                    (Inr \<lparr>d_account = a, d_classification = c,
                          d_anthropic_disponible = qa, d_gemini_disponible = qg\<rparr>, s3))))"

subsection \<open>Session\<close>

text \<open>The aggregate roll-up of \<^verbatim>\<open>Session.end_session\<close> on the owning account row.\<close>

definition rollup :: "timedelta \<Rightarrow> account \<Rightarrow> account" where
  "rollup d a =
     (let veces = (case veces_usada a of None \<Rightarrow> 0 | Some n \<Rightarrow> n);
          tiempo = (case tiempo_total_uso a of None \<Rightarrow> 0 | Some t \<Rightarrow> t)
      in a\<lparr>activa := False,
           veces_usada := Some (veces + 1),
           tiempo_total_uso := Some (if d \<noteq> 0 then tiempo + d else tiempo)\<rparr>)"

text \<open>
  \<^verbatim>\<open>Session.end_session\<close>: the closed session and the accounts table after the commit, or
  the exception of the subtraction (nothing is committed then). Both branches on
  \<^verbatim>\<open>self.inicio.tzinfo\<close> assign the aware \<^verbatim>\<open>datetime.now(timezone.utc)\<close>.
  \<^verbatim>\<open>Account.query.get\<close> looks the account up by primary key alone.
\<close>

definition Session_end_session ::
  "int \<Rightarrow> motivo \<Rightarrow> session \<Rightarrow> account list \<Rightarrow> error + (session \<times> account list)" where
  "Session_end_session now m self accs =
     (let fin' = (if tzinfo (inicio self) then datetime_now_utc now else datetime_now_utc now)
      in case datetime_sub fin' (inicio self) of
           Inl e \<Rightarrow> Inl e
         | Inr d \<Rightarrow>
             (let self' = self\<lparr>fin := Some fin', duracion := Some d, motivo_fin := Some m\<rparr>
              in case first_index (\<lambda>a. a_id a = s_account_id self) accs of
                   None \<Rightarrow> Inr (self', accs)
                 | Some j \<Rightarrow> Inr (self', accs[j := rollup d (accs ! j)])))"

section \<open>RotationManager (app/utils/rotation.py)\<close>

text \<open>Every operation takes the manager's \<open>uid\<close> (\<^verbatim>\<open>self.user_id\<close>) first.\<close>

text \<open>The test of the loop body of \<^verbatim>\<open>get_available_accounts\<close> on one account: the
  requested provider's check, or with no provider the short-circuit \<^verbatim>\<open>or\<close> of both.\<close>

fun account_matches ::
  "int \<Rightarrow> provider option \<Rightarrow> account \<Rightarrow> store \<Rightarrow> (error + bool) \<times> store" where
  "account_matches now (Some Anthropic) a s = is_anthropic_available now a s"
| "account_matches now (Some Gemini) a s = is_gemini_available now a s"
| "account_matches now None a s =
     (case is_anthropic_available now a s of
        (Inl e, s1) \<Rightarrow> (Inl e, s1)
      | (Inr True, s1) \<Rightarrow> (Inr True, s1)
      | (Inr False, s1) \<Rightarrow> is_gemini_available now a s1)"

text \<open>The loop over the rows still to visit, with the list collected so far.\<close>

fun available_loop ::
  "int \<Rightarrow> provider option \<Rightarrow> account list \<Rightarrow> account list \<Rightarrow> store
     \<Rightarrow> (error + account list) \<times> store" where
  "available_loop now p [] available s = (Inr available, s)"
| "available_loop now p (a # rest) available s =
     (case account_matches now p a s of
        (Inl e, s1) \<Rightarrow> (Inl e, s1)
      | (Inr b, s1) \<Rightarrow>
          available_loop now p rest (if b then available @ [a] else available) s1)"

definition get_available_accounts ::
  "uuid \<Rightarrow> int \<Rightarrow> provider option \<Rightarrow> store \<Rightarrow> (error + account list) \<times> store" where
  "get_available_accounts uid now p s =
     available_loop now p (filter (\<lambda>a. user_id a = uid) (accounts s)) [] s"

text \<open>
  \<^verbatim>\<open>list.sort(key=lambda a: a.veces_usada)\<close>: a stable sort. A list of two or more rows
  compares every key with another one, and comparing \<^verbatim>\<open>None\<close> raises \<^verbatim>\<open>TypeError\<close>;
  a shorter list is returned without a comparison.
\<close>

definition sort_by_veces_usada :: "account list \<Rightarrow> error + account list" where
  "sort_by_veces_usada xs =
     (if 2 \<le> length xs \<and> (\<exists>a \<in> set xs. veces_usada a = None) then Inl TypeError
      else Inr (sort_key (\<lambda>a. case veces_usada a of None \<Rightarrow> 0 | Some n \<Rightarrow> n) xs))"

text \<open>The head of the sorted, non-empty candidate list, paired with the provider.\<close>

definition least_used :: "account list \<Rightarrow> provider \<Rightarrow> error + (account \<times> provider) option" where
  "least_used candidates p =
     (case sort_by_veces_usada candidates of
        Inl e \<Rightarrow> Inl e
      | Inr [] \<Rightarrow> Inl IndexError
      | Inr (a # _) \<Rightarrow> Inr (Some (a, p)))"

definition best_gemini ::
  "uuid \<Rightarrow> int \<Rightarrow> store \<Rightarrow> (error + (account \<times> provider) option) \<times> store" where
  "best_gemini uid now s =
     (case get_available_accounts uid now (Some Gemini) s of
        (Inl e, s1) \<Rightarrow> (Inl e, s1)
      | (Inr gemini_accounts, s1) \<Rightarrow>
          (if gemini_accounts \<noteq> [] then (least_used gemini_accounts Gemini, s1)
           else (Inr None, s1)))"

definition get_best_account ::
  "uuid \<Rightarrow> int \<Rightarrow> bool \<Rightarrow> store \<Rightarrow> (error + (account \<times> provider) option) \<times> store" where
  "get_best_account uid now prefer_anthropic s =
     (if prefer_anthropic then
        (case get_available_accounts uid now (Some Anthropic) s of
           (Inl e, s1) \<Rightarrow> (Inl e, s1)
         | (Inr anthropic_accounts, s1) \<Rightarrow>
             (if anthropic_accounts \<noteq> [] then (least_used anthropic_accounts Anthropic, s1)
              else best_gemini uid now s1))
      else best_gemini uid now s)"

text \<open>\<^verbatim>\<open>get_active_session\<close>: the first open session joined to an account of the user.\<close>

definition get_active_session :: "uuid \<Rightarrow> store \<Rightarrow> nat option" where
  "get_active_session uid s =
     first_index
       (\<lambda>x. fin x = None \<and> (\<exists>a \<in> set (accounts s). a_id a = s_account_id x \<and> user_id a = uid))
       (sessions s)"

text \<open>The quota check of \<^verbatim>\<open>start_session\<close> for the requested provider.\<close>

definition is_provider_available ::
  "int \<Rightarrow> provider \<Rightarrow> account \<Rightarrow> store \<Rightarrow> (error + bool) \<times> store" where
  "is_provider_available now p a s =
     (case p of
        Anthropic \<Rightarrow> is_anthropic_available now a s
      | Gemini \<Rightarrow> is_gemini_available now a s)"

definition agotada_message :: "provider \<Rightarrow> string" where
  "agotada_message p =
     (case p of
        Anthropic \<Rightarrow> ''Cuota de Anthropic agotada para esta cuenta''
      | Gemini \<Rightarrow> ''Cuota de Gemini agotada para esta cuenta'')"

text \<open>The class of a raised exception (\<^verbatim>\<open>type(e).__name__\<close>).\<close>

fun exception_class :: "error \<Rightarrow> string" where
  "exception_class (ValueError _) = ''ValueError''"
| "exception_class TypeError = ''TypeError''"
| "exception_class IndexError = ''IndexError''"

definition start_session ::
  "uuid \<Rightarrow> int \<Rightarrow> uuid \<Rightarrow> uuid \<Rightarrow> provider \<Rightarrow> store \<Rightarrow> (error + session) \<times> store" where
  "start_session uid now new_id account_id p s =
     (case get_active_session uid s of
        Some _ \<Rightarrow> (Inl (ValueError ''Ya hay una sesion activa. Finalizala primero.''), s)
      | None \<Rightarrow>
          (case first_index (\<lambda>a. a_id a = account_id \<and> user_id a = uid) (accounts s) of
             None \<Rightarrow> (Inl (ValueError ''Cuenta no encontrada''), s)
           | Some j \<Rightarrow>
               (case is_provider_available now p (accounts s ! j) s of
                  (Inl e, s1) \<Rightarrow> (Inl e, s1)
                | (Inr False, s1) \<Rightarrow> (Inl (ValueError (agotada_message p)), s1)
                | (Inr True, s1) \<Rightarrow>
                    (let new_session =
                           \<lparr>s_id = new_id, s_account_id = account_id, s_provider = p,
                            inicio = datetime_now_utc now, fin = None, duracion = None,
                            motivo_fin = None\<rparr>
                     in (Inr new_session,
                         s1\<lparr>accounts := (accounts s1)[j := (accounts s1 ! j)\<lparr>activa := True\<rparr>],
                            sessions := sessions s1 @ [new_session]\<rparr>)))))"

text \<open>\<^verbatim>\<open>RotationManager.end_session\<close>; \<open>new_id\<close> is the key of the quota row it creates
  when the session's quota is missing.\<close>

definition end_session ::
  "uuid \<Rightarrow> int \<Rightarrow> uuid \<Rightarrow> motivo \<Rightarrow> datetime option \<Rightarrow> store
     \<Rightarrow> (error + session option) \<times> store" where
  "end_session uid now new_id m reset_opt s =
     (case get_active_session uid s of
        None \<Rightarrow> (Inr None, s)
      | Some i \<Rightarrow>
          (case Session_end_session now m (sessions s ! i) (accounts s) of
             Inl e \<Rightarrow> (Inl e, s)
           | Inr (session', accs') \<Rightarrow>
               (let s1 = s\<lparr>sessions := (sessions s)[i := session'], accounts := accs'\<rparr>
                in case (m, reset_opt) of
                     (Cuota_agotada, Some reset_time) \<Rightarrow>
                       (case first_index
                               (\<lambda>q. q_account_id q = s_account_id session' \<and>
                                    q_provider q = s_provider session') (quotas s1) of
                          Some k \<Rightarrow>
                            (Inr (Some session'),
                             s1\<lparr>quotas := (quotas s1)[k := mark_exhausted now reset_time (quotas s1 ! k)]\<rparr>)
                        | None \<Rightarrow>
                            (Inr (Some session'),
                             s1\<lparr>quotas := quotas s1 @
                                  [mark_exhausted now reset_time
                                     \<lparr>q_id = new_id, q_account_id = s_account_id session',
                                      q_provider = s_provider session', estado = Disponible,
                                      proximo_reset = None, agotada_en = None\<rparr>]\<rparr>))
                   | _ \<Rightarrow> (Inr (Some session'), s1))))"

text \<open>\<^verbatim>\<open>get_next_anthropic_reset\<close>: the earliest stored reset among the exhausted Anthropic
  quotas of the user's accounts.\<close>

definition get_next_anthropic_reset :: "uuid \<Rightarrow> store \<Rightarrow> datetime option" where
  "get_next_anthropic_reset uid s =
     (case sort_key (\<lambda>q. case proximo_reset q of None \<Rightarrow> 0 | Some t \<Rightarrow> dt_value t)
             (filter (\<lambda>q. (\<exists>a \<in> set (accounts s). a_id a = q_account_id q \<and> user_id a = uid) \<and>
                           q_provider q = Anthropic \<and> estado q = Agotada \<and>
                           proximo_reset q \<noteq> None) (quotas s)) of
        [] \<Rightarrow> None
      | q # _ \<Rightarrow> proximo_reset q)"

text \<open>The dictionary of \<^verbatim>\<open>rotate_to_next\<close>. The keys \<^verbatim>\<open>next_anthropic_reset\<close> and
  \<^verbatim>\<open>new_session\<close> are set on some paths only: \<open>None\<close> is the absent key.\<close>

record rotation_result =
  ended_session :: "session option"
  next_account :: "account_dict option"
  next_provider :: "provider option"
  rotated :: bool
  needs_user_choice :: bool
  next_anthropic_reset :: "datetime option option"
  new_session :: "session option"

definition rotate_to_next ::
  "uuid \<Rightarrow> int \<Rightarrow> uuid \<Rightarrow> uuid \<Rightarrow> motivo \<Rightarrow> datetime option \<Rightarrow> bool \<Rightarrow> store
     \<Rightarrow> (error + rotation_result) \<times> store" where
  "rotate_to_next uid now new_quota_id new_session_id m reset_opt auto_start s =
     (case end_session uid now new_quota_id m reset_opt s of
        (Inl e, s1) \<Rightarrow> (Inl e, s1)
      | (Inr ended, s1) \<Rightarrow>
          (case get_best_account uid now True s1 of
             (Inl e, s2) \<Rightarrow> (Inl e, s2)
           | (Inr None, s2) \<Rightarrow>
               (Inr \<lparr>ended_session = ended, next_account = None, next_provider = None,
                     rotated = False, needs_user_choice = False,
                     next_anthropic_reset = None, new_session = None\<rparr>, s2)
           | (Inr (Some (acc, next_p)), s2) \<Rightarrow>
               (case account_to_dict now acc s2 of
                  (Inl e, s3) \<Rightarrow> (Inl e, s3)
                | (Inr d, s3) \<Rightarrow>
                    (let result =
                           \<lparr>ended_session = ended, next_account = Some d,
                            next_provider = Some next_p, rotated = False,
                            needs_user_choice = False, next_anthropic_reset = None,
                            new_session = None\<rparr>
                     in if next_p = Gemini then
                          (Inr (result\<lparr>needs_user_choice := True,
                                      next_anthropic_reset :=
                                        Some (get_next_anthropic_reset uid s3)\<rparr>), s3)
                        else if auto_start then
                          (case start_session uid now new_session_id (a_id acc) next_p s3 of
                             (Inl e, s4) \<Rightarrow> (Inl e, s4)
                           | (Inr created, s4) \<Rightarrow>
                               (Inr (result\<lparr>new_session := Some created, rotated := True\<rparr>), s4))
                        else (Inr result, s3)))))"

subsection \<open>Pool summary\<close>

datatype mas_usado = Mas_Anthropic | Mas_Gemini | Empate

text \<open>
  The dictionary of \<^verbatim>\<open>get_summary\<close>, whose fields are also the loop's counters. The
  source adds up hours as floating-point numbers and rounds them to two places; the
  model adds up the same durations in microseconds and leaves the conversion out.
\<close>

record summary =
  total :: nat
  disponibles :: nat
  limite_parcial :: nat
  limite_total :: nat
  limite_anthropic :: nat
  limite_gemini :: nat
  horas_anthropic :: timedelta
  horas_gemini :: timedelta
  sesiones_anthropic :: nat
  sesiones_gemini :: nat
  modelo_mas_usado :: "mas_usado option"

text \<open>The inner loop over one account's finished sessions: a session counts when its
  \<^verbatim>\<open>duracion\<close> is truthy, that is, set and not zero.\<close>

fun session_loop :: "session list \<Rightarrow> summary \<Rightarrow> summary" where
  "session_loop [] c = c"
| "session_loop (x # xs) c =
     session_loop xs
       (case duracion x of
          None \<Rightarrow> c
        | Some d \<Rightarrow>
            (if d \<noteq> 0 then
               (if s_provider x = Anthropic
                then c\<lparr>horas_anthropic := horas_anthropic c + d,
                       sesiones_anthropic := sesiones_anthropic c + 1\<rparr>
                else c\<lparr>horas_gemini := horas_gemini c + d,
                       sesiones_gemini := sesiones_gemini c + 1\<rparr>)
             else c))"

text \<open>\<^verbatim>\<open>account.sessions\<close> filtered to the finished ones.\<close>

definition finished_sessions :: "account \<Rightarrow> store \<Rightarrow> session list" where
  "finished_sessions a s =
     filter (\<lambda>x. fin x \<noteq> None) (filter (\<lambda>x. s_account_id x = a_id a) (sessions s))"

fun summary_loop :: "int \<Rightarrow> account list \<Rightarrow> summary \<Rightarrow> store \<Rightarrow> (error + summary) \<times> store" where
  "summary_loop now [] c s = (Inr c, s)"
| "summary_loop now (a # rest) c s =
     (case get_classification now a s of
        (Inl e, s1) \<Rightarrow> (Inl e, s1)
      | (Inr cl, s1) \<Rightarrow>
          (let c1 = (case cl of
                       Cl_disponible \<Rightarrow> c\<lparr>disponibles := disponibles c + 1\<rparr>
                     | Cl_limite_parcial \<Rightarrow> c\<lparr>limite_parcial := limite_parcial c + 1\<rparr>
                     | Cl_limite_total \<Rightarrow> c\<lparr>limite_total := limite_total c + 1\<rparr>)
           in case is_anthropic_available now a s1 of
                (Inl e, s2) \<Rightarrow> (Inl e, s2)
              | (Inr aa, s2) \<Rightarrow>
                  (let c2 = (if \<not> aa then c1\<lparr>limite_anthropic := limite_anthropic c1 + 1\<rparr> else c1)
                   in case is_gemini_available now a s2 of
                        (Inl e, s3) \<Rightarrow> (Inl e, s3)
                      | (Inr ga, s3) \<Rightarrow>
                          (let c3 = (if \<not> ga then c2\<lparr>limite_gemini := limite_gemini c2 + 1\<rparr>
                                     else c2)
                           in summary_loop now rest
                                (session_loop (finished_sessions a s3) c3) s3))))"

definition get_summary :: "uuid \<Rightarrow> int \<Rightarrow> store \<Rightarrow> (error + summary) \<times> store" where
  "get_summary uid now s =
     (let accs = filter (\<lambda>a. user_id a = uid) (accounts s);
          c0 = \<lparr>total = length accs, disponibles = 0, limite_parcial = 0, limite_total = 0,
                limite_anthropic = 0, limite_gemini = 0, horas_anthropic = 0,
                horas_gemini = 0, sesiones_anthropic = 0, sesiones_gemini = 0,
                modelo_mas_usado = None\<rparr>
      in case summary_loop now accs c0 s of
           (Inl e, s1) \<Rightarrow> (Inl e, s1)
         | (Inr c, s1) \<Rightarrow>
             (Inr (c\<lparr>modelo_mas_usado :=
                       (if sesiones_gemini c < sesiones_anthropic c then Some Mas_Anthropic
                        else if sesiones_anthropic c < sesiones_gemini c then Some Mas_Gemini
                        else if 0 < sesiones_anthropic c then Some Empate
                        else None)\<rparr>), s1))"

subsection \<open>Sequences of calls\<close>

text \<open>A call of one of the three session operations with its arguments, the clock
  reading and the fresh keys included.\<close>

datatype call =
    Start_session int uuid uuid provider
  | End_session int uuid motivo "datetime option"
  | Rotate_to_next int uuid uuid motivo "datetime option" bool

text \<open>The store a call leaves behind, whether it returns or raises.\<close>

fun step :: "uuid \<Rightarrow> call \<Rightarrow> store \<Rightarrow> store" where
  "step uid (Start_session now new_id account_id p) s =
     snd (start_session uid now new_id account_id p s)"
| "step uid (End_session now new_id m reset_opt) s =
     snd (end_session uid now new_id m reset_opt s)"
| "step uid (Rotate_to_next now new_quota_id new_session_id m reset_opt auto_start) s =
     snd (rotate_to_next uid now new_quota_id new_session_id m reset_opt auto_start s)"

fun run :: "uuid \<Rightarrow> call list \<Rightarrow> store \<Rightarrow> store" where
  "run uid [] s = s"
| "run uid (c # cs) s = run uid cs (step uid c s)"

definition open_sessions :: "store \<Rightarrow> session list" where
  "open_sessions s = filter (\<lambda>x. fin x = None) (sessions s)"

definition active_accounts :: "store \<Rightarrow> account list" where
  "active_accounts s = filter activa (accounts s)"

subsection \<open>The rows written by ending a session\<close>

text \<open>The session row, the accounts table and the quotas table that
  \<^verbatim>\<open>RotationManager.end_session\<close> commits for the open session \<open>x\<close>, named so that the
  theorems can state them.\<close>

definition closed_session :: "int \<Rightarrow> motivo \<Rightarrow> session \<Rightarrow> session" where
  "closed_session now m x =
     x\<lparr>fin := Some (Aware now), duracion := Some (now - dt_value (inicio x)),
       motivo_fin := Some m\<rparr>"

definition rolled_accounts :: "int \<Rightarrow> session \<Rightarrow> account list \<Rightarrow> account list" where
  "rolled_accounts now x accs =
     (case first_index (\<lambda>a. a_id a = s_account_id x) accs of
        None \<Rightarrow> accs
      | Some j \<Rightarrow> accs[j := rollup (now - dt_value (inicio x)) (accs ! j)])"

definition marked_quotas ::
  "int \<Rightarrow> uuid \<Rightarrow> motivo \<Rightarrow> datetime option \<Rightarrow> session \<Rightarrow> quota list \<Rightarrow> quota list" where
  "marked_quotas now new_id m reset_opt x qs =
     (case (m, reset_opt) of
        (Cuota_agotada, Some reset_time) \<Rightarrow>
          (case first_index
                  (\<lambda>q. q_account_id q = s_account_id x \<and> q_provider q = s_provider x) qs of
             Some k \<Rightarrow> qs[k := mark_exhausted now reset_time (qs ! k)]
           | None \<Rightarrow>
               qs @ [mark_exhausted now reset_time
                       \<lparr>q_id = new_id, q_account_id = s_account_id x,
                        q_provider = s_provider x, estado = Disponible,
                        proximo_reset = None, agotada_en = None\<rparr>])
      | _ \<Rightarrow> qs)"

subsection \<open>The pool invariant\<close>

text \<open>
  At most one session is open; every open session belongs to an account of the user;
  every active account has an open session; account keys are unique (primary key).
\<close>

definition pool_invariant :: "uuid \<Rightarrow> store \<Rightarrow> bool" where
  "pool_invariant uid s \<longleftrightarrow>
     length (open_sessions s) \<le> 1 \<and>
     (\<forall>x \<in> set (sessions s). fin x = None \<longrightarrow>
        (\<exists>a \<in> set (accounts s). a_id a = s_account_id x \<and> user_id a = uid)) \<and>
     (\<forall>a \<in> set (accounts s). activa a \<longrightarrow>
        (\<exists>x \<in> set (sessions s). fin x = None \<and> s_account_id x = a_id a)) \<and>
     distinct (map a_id (accounts s))"

section \<open>Example pools\<close>

text \<open>Concrete rows and stores on which the theorems below are instantiated.\<close>

definition acc_A :: account where
  "acc_A = \<lparr>a_id = ''A'', user_id = ''u'', email_google = ''a@example.org'', nombre = None,
            activa = False, veces_usada = Some 3, tiempo_total_uso = Some 0,
            created_at = Aware 200\<rparr>"

definition acc_B :: account where
  "acc_B = \<lparr>a_id = ''B'', user_id = ''u'', email_google = ''b@example.org'', nombre = None,
            activa = False, veces_usada = Some 3, tiempo_total_uso = Some 0,
            created_at = Aware 100\<rparr>"

definition quota_gemini_A :: quota where
  "quota_gemini_A = \<lparr>q_id = ''qg'', q_account_id = ''A'', q_provider = Gemini,
                     estado = Agotada, proximo_reset = Some (Aware 1000),
                     agotada_en = Some (Aware 10)\<rparr>"

definition quota_naive_A :: quota where
  "quota_naive_A = \<lparr>q_id = ''qa'', q_account_id = ''A'', q_provider = Anthropic,
                    estado = Agotada, proximo_reset = Some (Naive 50),
                    agotada_en = Some (Aware 10)\<rparr>"

definition pool_no_quotas :: store where
  "pool_no_quotas = \<lparr>accounts = [acc_A, acc_B], quotas = [], sessions = []\<rparr>"

definition session_open_A :: session where
  "session_open_A = \<lparr>s_id = ''s1'', s_account_id = ''A'', s_provider = Anthropic,
                     inicio = Aware 100, fin = None, duracion = None, motivo_fin = None\<rparr>"

definition pool_busy :: store where
  "pool_busy = \<lparr>accounts = [acc_A\<lparr>activa := True\<rparr>, acc_B], quotas = [],
                sessions = [session_open_A]\<rparr>"

definition pool_naive_session :: store where
  "pool_naive_session = \<lparr>accounts = [acc_A\<lparr>activa := True\<rparr>], quotas = [],
                         sessions = [session_open_A\<lparr>inicio := Naive 100\<rparr>]\<rparr>"

definition pool_orphan :: store where
  "pool_orphan = \<lparr>accounts = [acc_B], quotas = [], sessions = [session_open_A]\<rparr>"

definition pool_partial :: store where
  "pool_partial = \<lparr>accounts = [acc_A], quotas = [quota_gemini_A], sessions = []\<rparr>"

definition calls_example :: "call list" where
  "calls_example =
     [Start_session 100 ''s1'' ''A'' Anthropic,
      Start_session 110 ''s2'' ''B'' Anthropic,
      Rotate_to_next 200 ''q1'' ''s3'' Cuota_agotada (Some (Aware 900)) True]"

definition pool_after_example :: store where
  "pool_after_example =
     \<lparr>accounts =
        [acc_A\<lparr>veces_usada := Some 4, tiempo_total_uso := Some 100\<rparr>,
         acc_B\<lparr>activa := True\<rparr>],
      quotas =
        [\<lparr>q_id = ''q1'', q_account_id = ''A'', q_provider = Anthropic, estado = Agotada,
          proximo_reset = Some (Aware 900), agotada_en = Some (Aware 200)\<rparr>],
      sessions =
        [\<lparr>s_id = ''s1'', s_account_id = ''A'', s_provider = Anthropic, inicio = Aware 100,
          fin = Some (Aware 200), duracion = Some 100, motivo_fin = Some Cuota_agotada\<rparr>,
         \<lparr>s_id = ''s3'', s_account_id = ''B'', s_provider = Anthropic, inicio = Aware 200,
          fin = None, duracion = None, motivo_fin = None\<rparr>]\<rparr>"

definition quota_anthropic_B :: quota where
  "quota_anthropic_B = \<lparr>q_id = ''qb'', q_account_id = ''B'', q_provider = Anthropic,
                        estado = Agotada, proximo_reset = Some (Aware 1000),
                        agotada_en = Some (Aware 10)\<rparr>"

definition quota_gemini_B :: quota where
  "quota_gemini_B = \<lparr>q_id = ''qh'', q_account_id = ''B'', q_provider = Gemini,
                     estado = Agotada, proximo_reset = Some (Aware 400),
                     agotada_en = Some (Aware 10)\<rparr>"

definition pool_quotas :: store where
  "pool_quotas = \<lparr>accounts = [acc_A, acc_B],
                  quotas = [quota_naive_A, quota_gemini_A, quota_anthropic_B, quota_gemini_B],
                  sessions = []\<rparr>"

text \<open>
  The route \<^verbatim>\<open>POST /sessions/start\<close> (app/sessions/routes.py). The JSON body, when
  there is one, gives the two fields or leaves them out. The answer is the HTTP status
  with the body; an exception other than \<^verbatim>\<open>ValueError\<close> leaves the route.
\<close>

record start_request =
  req_account_id :: "string option"
  req_provider :: "string option"

datatype body = Error_body string | Started_body session "account_dict option"

definition provider_of_token :: "string \<Rightarrow> provider option" where
  "provider_of_token tok =
     (if tok = ''anthropic'' then Some Anthropic
      else if tok = ''gemini'' then Some Gemini
      else None)"

definition provider_token :: "provider \<Rightarrow> string" where
  "provider_token p = (case p of Anthropic \<Rightarrow> ''anthropic'' | Gemini \<Rightarrow> ''gemini'')"

definition start_session_route ::
  "uuid \<Rightarrow> int \<Rightarrow> uuid \<Rightarrow> start_request option \<Rightarrow> store \<Rightarrow> (error + nat \<times> body) \<times> store" where
  "start_session_route uid now new_id data s =
     (case data of
        None \<Rightarrow> (Inr (400, Error_body ''Datos requeridos''), s)
      | Some d \<Rightarrow>
          (case (req_account_id d, req_provider d) of
             (Some account_id, Some tok) \<Rightarrow>
               (if account_id = [] \<or> tok = [] then
                  (Inr (400, Error_body ''account_id y provider son requeridos''), s)
                else
                  (case provider_of_token tok of
                     None \<Rightarrow> (Inr (400, Error_body ''Proveedor invalido''), s)
                   | Some p \<Rightarrow>
                       (case start_session uid now new_id account_id p s of
                          (Inl (ValueError msg), s1) \<Rightarrow> (Inr (400, Error_body msg), s1)
                        | (Inl e, s1) \<Rightarrow> (Inl e, s1)
                        | (Inr created, s1) \<Rightarrow>
                            (case first_index (\<lambda>a. a_id a = account_id) (accounts s1) of
                               None \<Rightarrow> (Inr (201, Started_body created None), s1)
                             | Some j \<Rightarrow>
                                 (case account_to_dict now (accounts s1 ! j) s1 of
                                    (Inl (ValueError msg), s2) \<Rightarrow>
                                      (Inr (400, Error_body msg), s2)
                                  | (Inl e, s2) \<Rightarrow> (Inl e, s2)
                                  | (Inr acc_dict, s2) \<Rightarrow>
                                      (Inr (201, Started_body created (Some acc_dict)), s2))))))
           | _ \<Rightarrow> (Inr (400, Error_body ''account_id y provider son requeridos''), s)))"

text \<open>
  The availability checks change the store only by resetting quota rows that they
  answer true for. \<open>settles now s s'\<close> says that \<open>s'\<close> is \<open>s\<close> with some such rows
  reset.
\<close>

definition settles :: "int \<Rightarrow> store \<Rightarrow> store \<Rightarrow> bool" where
  "settles now s s' \<longleftrightarrow>
     accounts s' = accounts s \<and> sessions s' = sessions s \<and>
     length (quotas s') = length (quotas s) \<and>
     (\<forall>k < length (quotas s).
        quotas s' ! k = quotas s ! k \<or>
        (fst (is_available now (quotas s ! k)) = Inr True \<and>
         quotas s' ! k = reset (quotas s ! k)))"

text \<open>The loop of \<^verbatim>\<open>get_available_accounts\<close> as a function of the answers \<open>f\<close> of the
  checks.\<close>

fun pure_available ::
  "(account \<Rightarrow> error + bool) \<Rightarrow> account list \<Rightarrow> account list \<Rightarrow> error + account list" where
  "pure_available f [] available = Inr available"
| "pure_available f (a # rest) available =
     (case f a of
        Inl e \<Rightarrow> Inl e
      | Inr b \<Rightarrow> pure_available f rest (if b then available @ [a] else available))"

section \<open>Quota lifecycle\<close>

lemma is_available_cases:
  "is_available now q =
     (if estado q = Disponible then (Inr True, q)
      else (case proximo_reset q of
              None \<Rightarrow> (Inr False, q)
            | Some (Aware r) \<Rightarrow> (if r \<le> now then (Inr True, reset q) else (Inr False, q))
            | Some (Naive r) \<Rightarrow> (Inl TypeError, q)))"
  by (simp add: is_available_def datetime_now_utc_def split: option.splits datetime.splits)

text \<open>
  C2. The availability check does not bring both sides of the comparison to UTC: on an
  exhausted quota whose \<^verbatim>\<open>proximo_reset\<close> is stored offset-naive it compares the aware
  \<^verbatim>\<open>now\<close> with the naive value, so the call raises \<^verbatim>\<open>TypeError\<close> and returns no
  boolean, whatever the two readings are. The row is left as it was.
\<close>

theorem is_available_naive_reset_raises:
  "is_available now (q\<lparr>estado := Agotada, proximo_reset := Some (Naive r)\<rparr>) =
     (Inl TypeError, q\<lparr>estado := Agotada, proximo_reset := Some (Naive r)\<rparr>)"
  by (simp add: is_available_cases)

text \<open>
  C5. What \<^verbatim>\<open>is_available\<close> does on every quota row: an available row answers true
  and stays; an exhausted row without a reset time answers false; an exhausted row with
  an aware reset time answers true and is reset exactly when \<open>reset \<le> now\<close>, and
  answers false unchanged otherwise; an exhausted row with a naive reset time raises
  \<^verbatim>\<open>TypeError\<close>. Hence \<^verbatim>\<open>mark_exhausted\<close> with a past reset time followed by
  \<^verbatim>\<open>is_available\<close> answers true when that time is aware, and raises when it is naive.
\<close>

theorem is_available_after_mark_exhausted:
  "is_available now q =
     (if estado q = Disponible then (Inr True, q)
      else (case proximo_reset q of
              None \<Rightarrow> (Inr False, q)
            | Some (Aware r) \<Rightarrow> (if r \<le> now then (Inr True, reset q) else (Inr False, q))
            | Some (Naive r) \<Rightarrow> (Inl TypeError, q))) \<and>
   is_available now' (mark_exhausted now reset_time q) =
     (case reset_time of
        Aware r \<Rightarrow>
          (if r \<le> now' then (Inr True, reset q)
           else (Inr False, mark_exhausted now reset_time q))
      | Naive r \<Rightarrow> (Inl TypeError, mark_exhausted now reset_time q))"
  by (simp add: is_available_cases mark_exhausted_def reset_def split: datetime.splits)

section \<open>Classification\<close>

lemma first_index_Some:
  "first_index P xs = Some i \<Longrightarrow> i < length xs \<and> P (xs ! i) \<and> (\<forall>j<i. \<not> P (xs ! j))"
proof (induction xs arbitrary: i)
  case Nil
  then show ?case by simp
next
  case (Cons x xs)
  show ?case
  proof (cases "P x")
    case True
    with Cons.prems show ?thesis by simp
  next
    case False
    with Cons.prems obtain k where k: "first_index P xs = Some k" "i = Suc k"
      by (auto split: if_splits)
    from Cons.IH[OF k(1)] False k(2) show ?thesis
      by (auto simp: less_Suc_eq_0_disj)
  qed
qed

lemma first_index_None: "first_index P xs = None \<longleftrightarrow> (\<forall>x \<in> set xs. \<not> P x)"
  by (induction xs) auto

lemma first_index_map_cong:
  "map P xs = map Q ys \<Longrightarrow> first_index P xs = first_index Q ys"
proof (induction xs arbitrary: ys)
  case Nil
  then show ?case by simp
next
  case (Cons x xs)
  then obtain y ys' where "ys = y # ys'" by (cases ys) auto
  with Cons show ?case by auto
qed

lemma is_available_keys:
  "is_available now q = (r, q') \<Longrightarrow>
     q_account_id q' = q_account_id q \<and> q_provider q' = q_provider q \<and> q_id q' = q_id q"
  by (auto simp: is_available_cases reset_def split: if_splits option.splits datetime.splits)

lemma quota_is_available_frame:
  "quota_is_available now i s = (r, s') \<Longrightarrow>
     accounts s' = accounts s \<and> sessions s' = sessions s \<and>
     length (quotas s') = length (quotas s) \<and>
     map q_account_id (quotas s') = map q_account_id (quotas s) \<and>
     map q_provider (quotas s') = map q_provider (quotas s)"
  apply (auto simp: quota_is_available_def split: prod.splits dest!: is_available_keys)
   apply (metis list_update_id map_update)+
  done

lemma is_anthropic_available_frame:
  "is_anthropic_available now a s = (r, s') \<Longrightarrow>
     accounts s' = accounts s \<and> sessions s' = sessions s \<and>
     map q_account_id (quotas s') = map q_account_id (quotas s) \<and>
     map q_provider (quotas s') = map q_provider (quotas s)"
  by (auto simp: is_anthropic_available_def split: option.splits dest: quota_is_available_frame)

lemma is_gemini_available_frame:
  "is_gemini_available now a s = (r, s') \<Longrightarrow>
     accounts s' = accounts s \<and> sessions s' = sessions s \<and>
     map q_account_id (quotas s') = map q_account_id (quotas s) \<and>
     map q_provider (quotas s') = map q_provider (quotas s)"
  by (auto simp: is_gemini_available_def split: option.splits dest: quota_is_available_frame)

lemma first_index_keys:
  assumes "map q_account_id qs' = map q_account_id qs" "map q_provider qs' = map q_provider qs"
  shows "first_index (\<lambda>q. q_account_id q = aid \<and> q_provider q = p) qs' =
         first_index (\<lambda>q. q_account_id q = aid \<and> q_provider q = p) qs"
proof (rule first_index_map_cong)
  have len: "length qs' = length qs" using assms(1) by (metis length_map)
  show "map (\<lambda>q. q_account_id q = aid \<and> q_provider q = p) qs' =
        map (\<lambda>q. q_account_id q = aid \<and> q_provider q = p) qs"
  proof (rule nth_equalityI)
    show "length (map (\<lambda>q. q_account_id q = aid \<and> q_provider q = p) qs') =
          length (map (\<lambda>q. q_account_id q = aid \<and> q_provider q = p) qs)"
      using len by simp
  next
    fix i assume "i < length (map (\<lambda>q. q_account_id q = aid \<and> q_provider q = p) qs')"
    then have i: "i < length qs'" "i < length qs" using len by simp_all
    have "q_account_id (qs' ! i) = q_account_id (qs ! i)"
      using assms(1) i by (metis nth_map)
    moreover have "q_provider (qs' ! i) = q_provider (qs ! i)"
      using assms(2) i by (metis nth_map)
    ultimately show "map (\<lambda>q. q_account_id q = aid \<and> q_provider q = p) qs' ! i =
                     map (\<lambda>q. q_account_id q = aid \<and> q_provider q = p) qs ! i"
      using i by simp
  qed
qed

text \<open>The Anthropic check touches the Anthropic row only, so the Gemini check answers
  the same before and after it.\<close>

lemma gemini_after_anthropic:
  assumes "is_anthropic_available now a s = (r, s1)"
  shows "fst (is_gemini_available now a s1) = fst (is_gemini_available now a s)"
proof -
  have fr: "map q_account_id (quotas s1) = map q_account_id (quotas s)"
           "map q_provider (quotas s1) = map q_provider (quotas s)"
    using is_anthropic_available_frame[OF assms] by simp_all
  have idx: "get_gemini_quota a s1 = get_gemini_quota a s"
    unfolding get_gemini_quota_def by (rule first_index_keys[OF fr])
  show ?thesis
  proof (cases "get_gemini_quota a s")
    case None
    with idx show ?thesis by (simp add: is_gemini_available_def)
  next
    case (Some k)
    then have k: "k < length (quotas s)" "q_provider (quotas s ! k) = Gemini"
      unfolding get_gemini_quota_def by (auto dest: first_index_Some)
    have row: "quotas s1 ! k = quotas s ! k"
    proof (cases "get_anthropic_quota a s")
      case None
      with assms show ?thesis by (simp add: is_anthropic_available_def)
    next
      case (Some i)
      then have "q_provider (quotas s ! i) = Anthropic"
        unfolding get_anthropic_quota_def by (auto dest: first_index_Some)
      with k have "i \<noteq> k" by auto
      with assms Some show ?thesis
        by (auto simp: is_anthropic_available_def quota_is_available_def split: prod.splits)
    qed
    with idx Some show ?thesis
      by (simp add: is_gemini_available_def quota_is_available_def split: prod.splits)
  qed
qed

section \<open>Starting a session\<close>

lemma quota_is_available_not_True:
  "quota_is_available now i s = (r, s') \<Longrightarrow> r \<noteq> Inr True \<Longrightarrow> s' = s"
  by (auto simp: quota_is_available_def is_available_cases
           split: if_splits option.splits datetime.splits)

lemma is_provider_available_not_True:
  "is_provider_available now p a s = (r, s') \<Longrightarrow> r \<noteq> Inr True \<Longrightarrow> s' = s"
  by (auto simp: is_provider_available_def is_anthropic_available_def is_gemini_available_def
           split: provider.splits option.splits dest: quota_is_available_not_True)

lemma is_provider_available_frame:
  "is_provider_available now p a s = (r, s') \<Longrightarrow>
     accounts s' = accounts s \<and> sessions s' = sessions s"
  by (auto simp: is_provider_available_def split: provider.splits
           dest: is_anthropic_available_frame is_gemini_available_frame)

lemma start_session_active:
  "get_active_session uid s = Some i \<Longrightarrow>
   start_session uid now nid aid p s =
     (Inl (ValueError ''Ya hay una sesion activa. Finalizala primero.''), s)"
  by (simp add: start_session_def)

lemma start_session_not_found:
  "get_active_session uid s = None \<Longrightarrow>
   first_index (\<lambda>a. a_id a = aid \<and> user_id a = uid) (accounts s) = None \<Longrightarrow>
   start_session uid now nid aid p s = (Inl (ValueError ''Cuenta no encontrada''), s)"
  by (simp add: start_session_def)

lemma start_session_agotada:
  "get_active_session uid s = None \<Longrightarrow>
   first_index (\<lambda>a. a_id a = aid \<and> user_id a = uid) (accounts s) = Some j \<Longrightarrow>
   fst (is_provider_available now p (accounts s ! j) s) = Inr False \<Longrightarrow>
   start_session uid now nid aid p s = (Inl (ValueError (agotada_message p)), s)"
  apply (cases "is_provider_available now p (accounts s ! j) s")
  apply (auto simp: start_session_def dest: is_provider_available_not_True)
  done

lemma start_session_raises:
  "get_active_session uid s = None \<Longrightarrow>
   first_index (\<lambda>a. a_id a = aid \<and> user_id a = uid) (accounts s) = Some j \<Longrightarrow>
   fst (is_provider_available now p (accounts s ! j) s) = Inl e \<Longrightarrow>
   start_session uid now nid aid p s = (Inl e, s)"
  apply (cases "is_provider_available now p (accounts s ! j) s")
  apply (auto simp: start_session_def dest: is_provider_available_not_True)
  done

lemma start_session_ok:
  "get_active_session uid s = None \<Longrightarrow>
   first_index (\<lambda>a. a_id a = aid \<and> user_id a = uid) (accounts s) = Some j \<Longrightarrow>
   is_provider_available now p (accounts s ! j) s = (Inr True, s1) \<Longrightarrow>
   start_session uid now nid aid p s =
     (Inr \<lparr>s_id = nid, s_account_id = aid, s_provider = p, inicio = Aware now, fin = None,
           duracion = None, motivo_fin = None\<rparr>,
      s1\<lparr>accounts := (accounts s)[j := (accounts s ! j)\<lparr>activa := True\<rparr>],
         sessions := sessions s @
           [\<lparr>s_id = nid, s_account_id = aid, s_provider = p, inicio = Aware now, fin = None,
             duracion = None, motivo_fin = None\<rparr>]\<rparr>)"
  by (auto simp: start_session_def datetime_now_utc_def Let_def dest: is_provider_available_frame)

section \<open>Ending a session\<close>

lemma Session_end_session_aware:
  "inicio x = Aware t \<Longrightarrow>
   Session_end_session now m x accs =
     Inr (x\<lparr>fin := Some (Aware now), duracion := Some (now - t), motivo_fin := Some m\<rparr>,
          case first_index (\<lambda>a. a_id a = s_account_id x) accs of
            None \<Rightarrow> accs
          | Some j \<Rightarrow> accs[j := rollup (now - t) (accs ! j)])"
  by (simp add: Session_end_session_def datetime_now_utc_def split: option.splits)

lemma Session_end_session_naive:
  "inicio x = Naive t \<Longrightarrow> Session_end_session now m x accs = Inl TypeError"
  by (simp add: Session_end_session_def datetime_now_utc_def)

lemma end_session_cases:
  "end_session uid now nid m r s =
     (case get_active_session uid s of
        None \<Rightarrow> (Inr None, s)
      | Some i \<Rightarrow>
          (case inicio (sessions s ! i) of
             Naive t \<Rightarrow> (Inl TypeError, s)
           | Aware t \<Rightarrow>
               (Inr (Some (closed_session now m (sessions s ! i))),
                s\<lparr>sessions := (sessions s)[i := closed_session now m (sessions s ! i)],
                  accounts := rolled_accounts now (sessions s ! i) (accounts s),
                  quotas := marked_quotas now nid m r (sessions s ! i) (quotas s)\<rparr>)))"
  by (auto simp: end_session_def Session_end_session_aware Session_end_session_naive
        closed_session_def rolled_accounts_def marked_quotas_def Let_def
      split: option.splits datetime.splits motivo.splits)

section \<open>The pool invariant\<close>

lemma filter_update_empty:
  assumes "length (filter P xs) \<le> 1" "i < length xs" "P (xs ! i)" "\<not> P y"
  shows "filter P (xs[i := y]) = []"
proof -
  have xs: "xs = take i xs @ xs ! i # drop (Suc i) xs"
    using assms(2) by (simp add: id_take_nth_drop)
  have "length (filter P xs) =
        length (filter P (take i xs)) + 1 + length (filter P (drop (Suc i) xs))"
    by (subst xs) (simp add: assms(3))
  with assms(1) have "filter P (take i xs) = []" "filter P (drop (Suc i) xs) = []"
    by auto
  moreover have "xs[i := y] = take i xs @ y # drop (Suc i) xs"
    using assms(2) by (simp add: upd_conv_take_nth_drop)
  ultimately show ?thesis using assms(4) by simp
qed

lemma filter_single_open:
  assumes "length (filter P xs) \<le> 1" "i < length xs" "P (xs ! i)" "x \<in> set xs" "P x"
  shows "x = xs ! i"
proof (rule ccontr)
  assume ne: "x \<noteq> xs ! i"
  have "xs ! i \<in> set (filter P xs)" using assms(2,3) by simp
  moreover have "x \<in> set (filter P xs)" using assms(4,5) by simp
  ultimately have "{x, xs ! i} \<subseteq> set (filter P xs)" by simp
  then have "card {x, xs ! i} \<le> card (set (filter P xs))"
    by (intro card_mono) auto
  also have "\<dots> \<le> length (filter P xs)" by (rule card_length)
  finally show False using ne assms(1) by simp
qed

lemma pool_invariantD:
  assumes "pool_invariant uid s"
  shows "length (filter (\<lambda>x. fin x = None) (sessions s)) \<le> 1"
    and "\<And>x. x \<in> set (sessions s) \<Longrightarrow> fin x = None \<Longrightarrow>
           \<exists>a \<in> set (accounts s). a_id a = s_account_id x \<and> user_id a = uid"
    and "\<And>a. a \<in> set (accounts s) \<Longrightarrow> activa a \<Longrightarrow>
           \<exists>x \<in> set (sessions s). fin x = None \<and> s_account_id x = a_id a"
    and "distinct (map a_id (accounts s))"
  using assms unfolding pool_invariant_def open_sessions_def by blast+

lemma get_active_session_NoneD:
  assumes "get_active_session uid s = None" "x \<in> set (sessions s)" "fin x = None"
    "a \<in> set (accounts s)" "a_id a = s_account_id x"
  shows "user_id a \<noteq> uid"
  using assms(1)[unfolded get_active_session_def first_index_None] assms(2-5) by blast

lemma get_active_session_None_open:
  assumes "pool_invariant uid s" "get_active_session uid s = None"
  shows "open_sessions s = []" "\<forall>a \<in> set (accounts s). \<not> activa a"
proof -
  have closed: "fin x \<noteq> None" if "x \<in> set (sessions s)" for x
    using pool_invariantD(2)[OF assms(1) that] get_active_session_NoneD[OF assms(2) that]
    by blast
  then show "open_sessions s = []"
    unfolding open_sessions_def filter_empty_conv by blast
  show "\<forall>a \<in> set (accounts s). \<not> activa a"
    using pool_invariantD(3)[OF assms(1)] closed by blast
qed


lemma pool_invariantI:
  assumes "length (filter (\<lambda>x. fin x = None) (sessions s)) \<le> 1"
    and "\<And>x. x \<in> set (sessions s) \<Longrightarrow> fin x = None \<Longrightarrow>
           \<exists>a \<in> set (accounts s). a_id a = s_account_id x \<and> user_id a = uid"
    and "\<And>a. a \<in> set (accounts s) \<Longrightarrow> activa a \<Longrightarrow>
           \<exists>x \<in> set (sessions s). fin x = None \<and> s_account_id x = a_id a"
    and "distinct (map a_id (accounts s))"
  shows "pool_invariant uid s"
  unfolding pool_invariant_def open_sessions_def using assms by blast

lemma pool_invariant_frame:
  assumes "accounts s' = accounts s" "sessions s' = sessions s"
  shows "pool_invariant uid s' = pool_invariant uid s"
  unfolding pool_invariant_def open_sessions_def assms ..

lemma set_update_cases:
  "a \<in> set (xs[j := y]) \<Longrightarrow> a = y \<or> a \<in> set xs"
  using set_update_subset_insert[of xs j y] by auto

lemma map_a_id_update:
  "a_id y = a_id (accs ! j) \<Longrightarrow> map a_id (accs[j := y]) = map a_id accs"
  by (metis list_update_id map_update)

lemma start_session_unchanged:
  assumes "fst (start_session uid now nid aid p s) = Inl e"
  shows "snd (start_session uid now nid aid p s) = s"
proof (cases "get_active_session uid s")
  case (Some i)
  then show ?thesis by (simp add: start_session_active)
next
  case None
  note act = None
  show ?thesis
  proof (cases "first_index (\<lambda>a. a_id a = aid \<and> user_id a = uid) (accounts s)")
    case None
    then show ?thesis using act by (simp add: start_session_not_found)
  next
    case (Some j)
    obtain r s1 where chk: "is_provider_available now p (accounts s ! j) s = (r, s1)"
      by (cases "is_provider_available now p (accounts s ! j) s") auto
    show ?thesis
    proof (cases r)
      case (Inl e')
      then show ?thesis using start_session_raises[OF act Some, of now p e' nid] chk by simp
    next
      case (Inr b)
      show ?thesis
      proof (cases b)
        case False
        then show ?thesis using start_session_agotada[OF act Some, of now p nid] chk Inr by simp
      next
        case True
        then show ?thesis
          using start_session_ok[OF act Some, of now p s1 nid] chk Inr assms by simp
      qed
    qed
  qed
qed

lemma start_session_invariant:
  assumes inv: "pool_invariant uid s"
  shows "pool_invariant uid (snd (start_session uid now nid aid p s))"
proof (cases "fst (start_session uid now nid aid p s)")
  case (Inl e)
  from start_session_unchanged[OF this] inv show ?thesis by simp
next
  case (Inr created)
  have act: "get_active_session uid s = None"
    using Inr by (cases "get_active_session uid s") (simp_all add: start_session_active)
  obtain j where j: "first_index (\<lambda>a. a_id a = aid \<and> user_id a = uid) (accounts s) = Some j"
    using Inr act
    by (cases "first_index (\<lambda>a. a_id a = aid \<and> user_id a = uid) (accounts s)")
       (simp_all add: start_session_not_found)
  obtain r s1 where chk: "is_provider_available now p (accounts s ! j) s = (r, s1)"
    by (cases "is_provider_available now p (accounts s ! j) s") auto
  have r: "r = Inr True"
  proof (cases r)
    case (Inl e)
    with start_session_raises[OF act j, of now p e nid] chk Inr show ?thesis by simp
  next
    case b: (Inr b)
    with start_session_agotada[OF act j, of now p nid] chk Inr show ?thesis by (cases b) simp_all
  qed
  let ?new = "\<lparr>s_id = nid, s_account_id = aid, s_provider = p, inicio = Aware now,
               fin = None, duracion = None, motivo_fin = None\<rparr>"
  let ?acc = "(accounts s ! j)\<lparr>activa := True\<rparr>"
  let ?accs = "(accounts s)[j := ?acc]"
  let ?s' = "s1\<lparr>accounts := ?accs, sessions := sessions s @ [?new]\<rparr>"
  have res: "snd (start_session uid now nid aid p s) = ?s'"
    using start_session_ok[OF act j, of now p s1 nid] chk r by simp
  have sel: "accounts ?s' = ?accs" "sessions ?s' = sessions s @ [?new]" by simp_all
  have jj: "j < length (accounts s)" "a_id (accounts s ! j) = aid" "user_id (accounts s ! j) = uid"
    using first_index_Some[OF j] by auto
  have no_open: "filter (\<lambda>x. fin x = None) (sessions s) = []"
    using get_active_session_None_open(1)[OF inv act] by (simp add: open_sessions_def)
  have no_act: "\<forall>a \<in> set (accounts s). \<not> activa a"
    using get_active_session_None_open(2)[OF inv act] .
  have mem: "?acc \<in> set ?accs" using jj(1) by (simp add: set_update_memI)
  have "pool_invariant uid ?s'"
  proof (rule pool_invariantI)
    show "length (filter (\<lambda>x. fin x = None) (sessions ?s')) \<le> 1"
      unfolding sel using no_open by simp
  next
    fix x assume "x \<in> set (sessions ?s')" "fin x = None"
    then have "x = ?new" using no_open unfolding sel by (auto simp: filter_empty_conv)
    then have "a_id ?acc = s_account_id x \<and> user_id ?acc = uid" using jj by simp
    with mem show "\<exists>a \<in> set (accounts ?s'). a_id a = s_account_id x \<and> user_id a = uid"
      unfolding sel by blast
  next
    fix a assume a: "a \<in> set (accounts ?s')" "activa a"
    from a(1) have "a = ?acc \<or> a \<in> set (accounts s)"
      unfolding sel by (rule set_update_cases)
    with a(2) no_act have "a = ?acc" by blast
    then have "fin ?new = None \<and> s_account_id ?new = a_id a" using jj by simp
    moreover have "?new \<in> set (sessions ?s')" unfolding sel by simp
    ultimately show "\<exists>x \<in> set (sessions ?s'). fin x = None \<and> s_account_id x = a_id a"
      by blast
  next
    have "map a_id ?accs = map a_id (accounts s)" by (rule map_a_id_update) simp
    then show "distinct (map a_id (accounts ?s'))"
      unfolding sel using pool_invariantD(4)[OF inv] by simp
  qed
  then show ?thesis unfolding res .
qed

lemma set_update_other:
  assumes "a \<in> set (xs[j := y])" "a \<noteq> y"
  shows "\<exists>k. k \<noteq> j \<and> k < length xs \<and> a = xs ! k"
proof -
  from assms(1) obtain k where k: "k < length (xs[j := y])" "a = xs[j := y] ! k"
    by (auto simp: in_set_conv_nth)
  with assms(2) have "k \<noteq> j" by auto
  with k show ?thesis by auto
qed

lemma rollup_fields:
  "a_id (rollup d a) = a_id a" "user_id (rollup d a) = user_id a" "\<not> activa (rollup d a)"
  by (simp_all add: rollup_def Let_def)

lemma get_active_session_SomeD:
  assumes "get_active_session uid s = Some i"
  shows "i < length (sessions s)" "fin (sessions s ! i) = None"
    "\<exists>a \<in> set (accounts s). a_id a = s_account_id (sessions s ! i) \<and> user_id a = uid"
  using first_index_Some[OF assms[unfolded get_active_session_def]] by blast+

text \<open>Ending the only open session leaves no session open and no account active.\<close>

lemma end_session_closes:
  assumes inv: "pool_invariant uid s"
    and act: "get_active_session uid s = Some i"
    and aware: "inicio (sessions s ! i) = Aware t"
  shows "filter (\<lambda>x. fin x = None) ((sessions s)[i := closed_session now m (sessions s ! i)]) = []"
    and "\<forall>a \<in> set (rolled_accounts now (sessions s ! i) (accounts s)). \<not> activa a"
    and "distinct (map a_id (rolled_accounts now (sessions s ! i) (accounts s)))"
proof -
  let ?x = "sessions s ! i"
  let ?d = "now - dt_value (inicio ?x)"
  note i = get_active_session_SomeD[OF act]
  note one = pool_invariantD(1)[OF inv]
  show "filter (\<lambda>x. fin x = None) ((sessions s)[i := closed_session now m ?x]) = []"
    by (rule filter_update_empty[OF one i(1,2)]) (simp add: closed_session_def)
  obtain j where j: "first_index (\<lambda>a. a_id a = s_account_id ?x) (accounts s) = Some j"
    using i(3) by (cases "first_index (\<lambda>a. a_id a = s_account_id ?x) (accounts s)")
                  (auto simp: first_index_None)
  have jj: "j < length (accounts s)" "a_id (accounts s ! j) = s_account_id ?x"
    using first_index_Some[OF j] by auto
  have accs: "rolled_accounts now ?x (accounts s) = (accounts s)[j := rollup ?d (accounts s ! j)]"
    using j by (simp add: rolled_accounts_def)
  note dist = pool_invariantD(4)[OF inv]
  show "\<forall>a \<in> set (rolled_accounts now ?x (accounts s)). \<not> activa a"
  proof (intro ballI notI)
    fix a assume a: "a \<in> set (rolled_accounts now ?x (accounts s))" "activa a"
    then have ne: "a \<noteq> rollup ?d (accounts s ! j)" using rollup_fields(3) by blast
    have "\<exists>k. k \<noteq> j \<and> k < length (accounts s) \<and> a = accounts s ! k"
      by (rule set_update_other[OF a(1)[unfolded accs] ne])
    then obtain k where k: "k \<noteq> j" "k < length (accounts s)" "a = accounts s ! k"
      by blast
    have "accounts s ! k \<in> set (accounts s)" using k(2) by simp
    from pool_invariantD(3)[OF inv this] a(2) k(3)
    obtain y where y: "y \<in> set (sessions s)" "fin y = None"
        "s_account_id y = a_id (accounts s ! k)" by blast
    have "y = ?x" by (rule filter_single_open[OF one i(1,2) y(1,2)])
    with y jj have "map a_id (accounts s) ! k = map a_id (accounts s) ! j"
      using k(2) by simp
    moreover have "k < length (map a_id (accounts s))" "j < length (map a_id (accounts s))"
      using k(2) jj(1) by simp_all
    ultimately have "k = j" using dist nth_eq_iff_index_eq by blast
    with k(1) show False by simp
  qed
  have "map a_id ((accounts s)[j := rollup ?d (accounts s ! j)]) = map a_id (accounts s)"
    by (rule map_a_id_update) (simp add: rollup_fields)
  then show "distinct (map a_id (rolled_accounts now ?x (accounts s)))"
    unfolding accs using dist by simp
qed

lemma end_session_invariant:
  assumes inv: "pool_invariant uid s"
  shows "pool_invariant uid (snd (end_session uid now nid m r s))"
    and "fst (end_session uid now nid m r s) = Inr res \<Longrightarrow>
           open_sessions (snd (end_session uid now nid m r s)) = []"
proof -
  have "pool_invariant uid (snd (end_session uid now nid m r s)) \<and>
        (fst (end_session uid now nid m r s) = Inr res \<longrightarrow>
           open_sessions (snd (end_session uid now nid m r s)) = [])"
  proof (cases "get_active_session uid s")
    case None
    then show ?thesis using inv get_active_session_None_open(1)[OF inv None]
      by (simp add: end_session_cases)
  next
    case (Some i)
    show ?thesis
    proof (cases "inicio (sessions s ! i)")
      case (Naive t)
      then show ?thesis using inv Some by (simp add: end_session_cases)
    next
      case (Aware t)
      let ?x = "sessions s ! i"
      let ?s' = "s\<lparr>sessions := (sessions s)[i := closed_session now m ?x],
                    accounts := rolled_accounts now ?x (accounts s),
                    quotas := marked_quotas now nid m r ?x (quotas s)\<rparr>"
      have res: "snd (end_session uid now nid m r s) = ?s'"
        using Some Aware by (simp add: end_session_cases)
      have sel: "sessions ?s' = (sessions s)[i := closed_session now m ?x]"
                "accounts ?s' = rolled_accounts now ?x (accounts s)" by simp_all
      note c = end_session_closes[OF inv Some Aware]
      have "pool_invariant uid ?s'"
      proof (rule pool_invariantI)
        show "length (filter (\<lambda>x. fin x = None) (sessions ?s')) \<le> 1"
          unfolding sel c(1) by simp
      next
        fix x assume "x \<in> set (sessions ?s')" "fin x = None"
        then have "x \<in> set (filter (\<lambda>x. fin x = None) (sessions ?s'))" by simp
        then have False unfolding sel c(1) by simp
        then show "\<exists>a \<in> set (accounts ?s'). a_id a = s_account_id x \<and> user_id a = uid" ..
      next
        fix a assume "a \<in> set (accounts ?s')" "activa a"
        then have False unfolding sel using c(2) by blast
        then show "\<exists>x \<in> set (sessions ?s'). fin x = None \<and> s_account_id x = a_id a" ..
      next
        show "distinct (map a_id (accounts ?s'))" unfolding sel by (rule c(3))
      qed
      moreover have "open_sessions ?s' = []"
        unfolding open_sessions_def sel by (rule c(1))
      ultimately show ?thesis unfolding res by simp
    qed
  qed
  then show "pool_invariant uid (snd (end_session uid now nid m r s))"
    and "fst (end_session uid now nid m r s) = Inr res \<Longrightarrow>
           open_sessions (snd (end_session uid now nid m r s)) = []"
    by blast+
qed

lemma account_matches_frame:
  "account_matches now p a s = (r, s') \<Longrightarrow>
     accounts s' = accounts s \<and> sessions s' = sessions s"
proof (cases p)
  case None
  obtain b s1 where c: "is_anthropic_available now a s = (b, s1)"
    by (cases "is_anthropic_available now a s") auto
  note fr = is_anthropic_available_frame[OF c]
  assume m: "account_matches now p a s = (r, s')"
  show ?thesis
  proof (cases "b = Inr False")
    case True
    with m c None have "is_gemini_available now a s1 = (r, s')" by simp
    from is_gemini_available_frame[OF this] fr show ?thesis by simp
  next
    case False
    with m c None have "s' = s1" by (cases b) (auto split: bool.splits)
    with fr show ?thesis by simp
  qed
next
  case (Some q)
  assume "account_matches now p a s = (r, s')"
  with Some show ?thesis
    by (cases q) (auto dest: is_anthropic_available_frame is_gemini_available_frame)
qed

lemma available_loop_frame:
  "available_loop now p accs av s = (r, s') \<Longrightarrow>
     accounts s' = accounts s \<and> sessions s' = sessions s"
proof (induction accs arbitrary: av s)
  case Nil
  then show ?case by simp
next
  case (Cons a rest)
  obtain b s1 where c: "account_matches now p a s = (b, s1)"
    by (cases "account_matches now p a s") auto
  note fr = account_matches_frame[OF c]
  show ?case
  proof (cases b)
    case (Inl e)
    with c Cons.prems fr show ?thesis by simp
  next
    case (Inr v)
    with c Cons.prems
    have "available_loop now p rest (if v then av @ [a] else av) s1 = (r, s')" by simp
    from Cons.IH[OF this] fr show ?thesis by simp
  qed
qed

lemma get_available_accounts_frame:
  "get_available_accounts uid now p s = (r, s') \<Longrightarrow>
     accounts s' = accounts s \<and> sessions s' = sessions s"
  unfolding get_available_accounts_def by (rule available_loop_frame)

lemma best_gemini_frame:
  assumes "best_gemini uid now s = (r, s')"
  shows "accounts s' = accounts s \<and> sessions s' = sessions s"
proof -
  obtain b s1 where c1: "get_available_accounts uid now (Some Gemini) s = (b, s1)"
    by (cases "get_available_accounts uid now (Some Gemini) s") auto
  have "s' = s1"
    using assms c1 unfolding best_gemini_def by (cases b) (auto split: if_splits)
  with get_available_accounts_frame[OF c1] show ?thesis by simp
qed

lemma get_best_account_frame:
  assumes "get_best_account uid now pa s = (r, s')"
  shows "accounts s' = accounts s \<and> sessions s' = sessions s"
proof (cases pa)
  case False
  with assms best_gemini_frame show ?thesis by (simp add: get_best_account_def)
next
  case True
  obtain b s1 where c1: "get_available_accounts uid now (Some Anthropic) s = (b, s1)"
    by (cases "get_available_accounts uid now (Some Anthropic) s") auto
  note f1 = get_available_accounts_frame[OF c1]
  have "s' = s1 \<or> best_gemini uid now s1 = (r, s')"
    using assms c1 True unfolding get_best_account_def by (cases b) (auto split: if_splits)
  then show ?thesis
  proof
    assume "s' = s1" with f1 show ?thesis by simp
  next
    assume "best_gemini uid now s1 = (r, s')"
    from best_gemini_frame[OF this] f1 show ?thesis by simp
  qed
qed

lemma get_classification_frame:
  assumes "get_classification now a s = (r, s')"
  shows "accounts s' = accounts s \<and> sessions s' = sessions s"
proof -
  obtain b s1 where c1: "is_anthropic_available now a s = (b, s1)"
    by (cases "is_anthropic_available now a s") auto
  obtain b2 s2 where c2: "is_gemini_available now a s1 = (b2, s2)"
    by (cases "is_gemini_available now a s1") auto
  note f1 = is_anthropic_available_frame[OF c1] and f2 = is_gemini_available_frame[OF c2]
  have "s' = s1 \<or> s' = s2"
    using assms c1 c2 unfolding get_classification_def
    by (cases b; cases b2) (auto split: if_splits)
  with f1 f2 show ?thesis by auto
qed

lemma account_to_dict_frame:
  assumes "account_to_dict now a s = (r, s')"
  shows "accounts s' = accounts s \<and> sessions s' = sessions s"
proof -
  obtain b s1 where c1: "get_classification now a s = (b, s1)"
    by (cases "get_classification now a s") auto
  obtain b2 s2 where c2: "is_anthropic_available now a s1 = (b2, s2)"
    by (cases "is_anthropic_available now a s1") auto
  obtain b3 s3 where c3: "is_gemini_available now a s2 = (b3, s3)"
    by (cases "is_gemini_available now a s2") auto
  note f1 = get_classification_frame[OF c1] and f2 = is_anthropic_available_frame[OF c2]
    and f3 = is_gemini_available_frame[OF c3]
  have "s' = s1 \<or> s' = s2 \<or> s' = s3"
    using assms c1 c2 c3 unfolding account_to_dict_def
    by (cases b; cases b2; cases b3) auto
  with f1 f2 f3 show ?thesis by auto
qed

lemma start_session_success:
  assumes "fst (start_session uid now nid aid p s) = Inr x"
  shows "get_active_session uid s = None"
    and "sessions (snd (start_session uid now nid aid p s)) = sessions s @ [x]"
    and "x = \<lparr>s_id = nid, s_account_id = aid, s_provider = p, inicio = Aware now,
               fin = None, duracion = None, motivo_fin = None\<rparr>"
proof -
  show act: "get_active_session uid s = None"
    using assms by (cases "get_active_session uid s") (simp_all add: start_session_active)
  obtain j where j: "first_index (\<lambda>a. a_id a = aid \<and> user_id a = uid) (accounts s) = Some j"
    using assms act
    by (cases "first_index (\<lambda>a. a_id a = aid \<and> user_id a = uid) (accounts s)")
       (simp_all add: start_session_not_found)
  obtain r s1 where chk: "is_provider_available now p (accounts s ! j) s = (r, s1)"
    by (cases "is_provider_available now p (accounts s ! j) s") auto
  have r: "r = Inr True"
  proof (cases r)
    case (Inl e)
    with start_session_raises[OF act j, of now p e nid] chk assms show ?thesis by simp
  next
    case b: (Inr b)
    with start_session_agotada[OF act j, of now p nid] chk assms show ?thesis
      by (cases b) simp_all
  qed
  note ok = start_session_ok[OF act j chk[unfolded r], of nid]
  show "sessions (snd (start_session uid now nid aid p s)) = sessions s @ [x]"
    using assms unfolding ok by simp
  show "x = \<lparr>s_id = nid, s_account_id = aid, s_provider = p, inicio = Aware now,
               fin = None, duracion = None, motivo_fin = None\<rparr>"
    using assms unfolding ok by simp
qed

text \<open>The paths through \<^verbatim>\<open>rotate_to_next\<close>.\<close>

lemma rotate_to_next_cases:
  fixes uid now qid sid m ro auto_start s
  defines "rot \<equiv> rotate_to_next uid now qid sid m ro auto_start s"
  obtains
    (end_raises) e s1 where
      "end_session uid now qid m ro s = (Inl e, s1)" "rot = (Inl e, s1)"
  | (best_raises) ended s1 e s2 where
      "end_session uid now qid m ro s = (Inr ended, s1)"
      "get_best_account uid now True s1 = (Inl e, s2)" "rot = (Inl e, s2)"
  | (no_account) ended s1 s2 where
      "end_session uid now qid m ro s = (Inr ended, s1)"
      "get_best_account uid now True s1 = (Inr None, s2)"
      "rot = (Inr \<lparr>ended_session = ended, next_account = None, next_provider = None,
                    rotated = False, needs_user_choice = False,
                    next_anthropic_reset = None, new_session = None\<rparr>, s2)"
  | (dict_raises) ended s1 acc p s2 e s3 where
      "end_session uid now qid m ro s = (Inr ended, s1)"
      "get_best_account uid now True s1 = (Inr (Some (acc, p)), s2)"
      "account_to_dict now acc s2 = (Inl e, s3)" "rot = (Inl e, s3)"
  | (gemini) ended s1 acc s2 d s3 where
      "end_session uid now qid m ro s = (Inr ended, s1)"
      "get_best_account uid now True s1 = (Inr (Some (acc, Gemini)), s2)"
      "account_to_dict now acc s2 = (Inr d, s3)"
      "rot = (Inr \<lparr>ended_session = ended, next_account = Some d, next_provider = Some Gemini,
                    rotated = False, needs_user_choice = True,
                    next_anthropic_reset = Some (get_next_anthropic_reset uid s3),
                    new_session = None\<rparr>, s3)"
  | (no_auto_start) ended s1 acc s2 d s3 where
      "end_session uid now qid m ro s = (Inr ended, s1)"
      "get_best_account uid now True s1 = (Inr (Some (acc, Anthropic)), s2)"
      "account_to_dict now acc s2 = (Inr d, s3)" "\<not> auto_start"
      "rot = (Inr \<lparr>ended_session = ended, next_account = Some d,
                    next_provider = Some Anthropic, rotated = False,
                    needs_user_choice = False, next_anthropic_reset = None,
                    new_session = None\<rparr>, s3)"
  | (start_raises) ended s1 acc s2 d s3 e s4 where
      "end_session uid now qid m ro s = (Inr ended, s1)"
      "get_best_account uid now True s1 = (Inr (Some (acc, Anthropic)), s2)"
      "account_to_dict now acc s2 = (Inr d, s3)" "auto_start"
      "start_session uid now sid (a_id acc) Anthropic s3 = (Inl e, s4)" "rot = (Inl e, s4)"
  | (started) ended s1 acc s2 d s3 created s4 where
      "end_session uid now qid m ro s = (Inr ended, s1)"
      "get_best_account uid now True s1 = (Inr (Some (acc, Anthropic)), s2)"
      "account_to_dict now acc s2 = (Inr d, s3)" "auto_start"
      "start_session uid now sid (a_id acc) Anthropic s3 = (Inr created, s4)"
      "rot = (Inr \<lparr>ended_session = ended, next_account = Some d,
                    next_provider = Some Anthropic, rotated = True,
                    needs_user_choice = False, next_anthropic_reset = None,
                    new_session = Some created\<rparr>, s4)"
proof -
  obtain r1 s1 where e1: "end_session uid now qid m ro s = (r1, s1)"
    by (cases "end_session uid now qid m ro s") auto
  show thesis
  proof (cases r1)
    case (Inl e)
    with e1 have "rot = (Inl e, s1)" by (simp add: rot_def rotate_to_next_def)
    with e1 Inl end_raises show thesis by blast
  next
    case ended: (Inr ended)
    note e1' = e1[unfolded ended]
    obtain r2 s2 where e2: "get_best_account uid now True s1 = (r2, s2)"
      by (cases "get_best_account uid now True s1") auto
    show thesis
    proof (cases r2)
      case (Inl e)
      with e1' e2 have "rot = (Inl e, s2)" by (simp add: rot_def rotate_to_next_def)
      with e1' e2 Inl best_raises show thesis by blast
    next
      case best: (Inr best)
      show thesis
      proof (cases best)
        case None
        note e2' = e2[unfolded best None]
        from e1' e2' no_account show thesis
          by (simp add: rot_def rotate_to_next_def)
      next
        case (Some ap)
        obtain acc p where ap: "ap = (acc, p)" by (cases ap) auto
        note e2' = e2[unfolded best Some ap]
        obtain r3 s3 where e3: "account_to_dict now acc s2 = (r3, s3)"
          by (cases "account_to_dict now acc s2") auto
        show thesis
        proof (cases r3)
          case (Inl e)
          note e3' = e3[unfolded Inl]
          have "rot = (Inl e, s3)" using e1' e2' e3' by (simp add: rot_def rotate_to_next_def)
          with e1' e2' e3' dict_raises show thesis by blast
        next
          case d: (Inr d)
          note e3' = e3[unfolded d]
          show thesis
          proof (cases p)
            case Gemini
            note e2'' = e2'[unfolded Gemini]
            from e1' e2'' e3' gemini show thesis
              by (simp add: rot_def rotate_to_next_def)
          next
            case Anthropic
            note e2'' = e2'[unfolded Anthropic]
            show thesis
            proof (cases auto_start)
              case False
              from e1' e2'' e3' False no_auto_start show thesis
                by (simp add: rot_def rotate_to_next_def)
            next
              case True
              obtain r4 s4 where e4: "start_session uid now sid (a_id acc) Anthropic s3 = (r4, s4)"
                by (cases "start_session uid now sid (a_id acc) Anthropic s3") auto
              show thesis
              proof (cases r4)
                case (Inl e)
                note e4' = e4[unfolded Inl]
                have "rot = (Inl e, s4)"
                  using e1' e2'' e3' e4' True by (simp add: rot_def rotate_to_next_def)
                with e1' e2'' e3' e4' True start_raises show thesis by blast
              next
                case (Inr created)
                note e4' = e4[unfolded Inr]
                from e1' e2'' e3' e4' True started show thesis
                  by (simp add: rot_def rotate_to_next_def)
              qed
            qed
          qed
        qed
      qed
    qed
  qed
qed

lemma frame_trans:
  assumes "accounts s2 = accounts s1 \<and> sessions s2 = sessions s1"
    and "accounts s3 = accounts s2 \<and> sessions s3 = sessions s2"
  shows "accounts s3 = accounts s1 \<and> sessions s3 = sessions s1"
  using assms by simp

lemma pool_invariant_transfer:
  assumes "accounts s' = accounts s \<and> sessions s' = sessions s" "pool_invariant uid s"
  shows "pool_invariant uid s'"
  using assms(2) unfolding pool_invariant_def open_sessions_def using assms(1) by simp

lemma open_sessions_transfer:
  assumes "accounts s' = accounts s \<and> sessions s' = sessions s"
  shows "open_sessions s' = open_sessions s"
  using assms by (simp add: open_sessions_def)

lemma rotate_to_next_invariant:
  assumes inv: "pool_invariant uid s"
  shows "pool_invariant uid (snd (rotate_to_next uid now qid sid m ro auto_start s))"
    and "fst (rotate_to_next uid now qid sid m ro auto_start s) = Inr res \<Longrightarrow>
           open_sessions (snd (rotate_to_next uid now qid sid m ro auto_start s)) =
             (case new_session res of None \<Rightarrow> [] | Some x \<Rightarrow> [x])"
proof -
  let ?rot = "rotate_to_next uid now qid sid m ro auto_start s"
  note e_inv = end_session_invariant(1)[OF inv, of now qid m ro]
  have "pool_invariant uid (snd ?rot) \<and>
        (fst ?rot = Inr res \<longrightarrow>
           open_sessions (snd ?rot) = (case new_session res of None \<Rightarrow> [] | Some x \<Rightarrow> [x]))"
  proof (cases rule: rotate_to_next_cases[of uid now qid m ro s sid auto_start])
    case (end_raises e s1)
    have "pool_invariant uid s1" using e_inv unfolding end_raises(1) by simp
    then show ?thesis unfolding end_raises(2) by simp
  next
    case (best_raises ended s1 e s2)
    have "pool_invariant uid s1" using e_inv unfolding best_raises(1) by simp
    then have "pool_invariant uid s2"
      by (rule pool_invariant_transfer[OF get_best_account_frame[OF best_raises(2)]])
    then show ?thesis unfolding best_raises(3) by simp
  next
    case (no_account ended s1 s2)
    have s1: "pool_invariant uid s1" using e_inv unfolding no_account(1) by simp
    have o1: "open_sessions s1 = []"
      using end_session_invariant(2)[OF inv, of now qid m ro ended] unfolding no_account(1)
      by simp
    note f = get_best_account_frame[OF no_account(2)]
    have "pool_invariant uid s2" by (rule pool_invariant_transfer[OF f s1])
    moreover have "open_sessions s2 = []" using open_sessions_transfer[OF f] o1 by simp
    ultimately show ?thesis unfolding no_account(3) by auto
  next
    case (dict_raises ended s1 acc p s2 e s3)
    have "pool_invariant uid s1" using e_inv unfolding dict_raises(1) by simp
    then have "pool_invariant uid s3"
      by (rule pool_invariant_transfer[OF frame_trans[OF get_best_account_frame[OF dict_raises(2)]
            account_to_dict_frame[OF dict_raises(3)]]])
    then show ?thesis unfolding dict_raises(4) by simp
  next
    case (gemini ended s1 acc s2 d s3)
    have s1: "pool_invariant uid s1" using e_inv unfolding gemini(1) by simp
    have o1: "open_sessions s1 = []"
      using end_session_invariant(2)[OF inv, of now qid m ro ended] unfolding gemini(1) by simp
    note f = frame_trans[OF get_best_account_frame[OF gemini(2)] account_to_dict_frame[OF gemini(3)]]
    have "pool_invariant uid s3" by (rule pool_invariant_transfer[OF f s1])
    moreover have "open_sessions s3 = []" using open_sessions_transfer[OF f] o1 by simp
    ultimately show ?thesis unfolding gemini(4) by auto
  next
    case (no_auto_start ended s1 acc s2 d s3)
    have s1: "pool_invariant uid s1" using e_inv unfolding no_auto_start(1) by simp
    have o1: "open_sessions s1 = []"
      using end_session_invariant(2)[OF inv, of now qid m ro ended] unfolding no_auto_start(1)
      by simp
    note f = frame_trans[OF get_best_account_frame[OF no_auto_start(2)]
               account_to_dict_frame[OF no_auto_start(3)]]
    have "pool_invariant uid s3" by (rule pool_invariant_transfer[OF f s1])
    moreover have "open_sessions s3 = []" using open_sessions_transfer[OF f] o1 by simp
    ultimately show ?thesis unfolding no_auto_start(5) by auto
  next
    case (start_raises ended s1 acc s2 d s3 e s4)
    have "pool_invariant uid s1" using e_inv unfolding start_raises(1) by simp
    then have "pool_invariant uid s3"
      by (rule pool_invariant_transfer[OF frame_trans[OF get_best_account_frame[OF start_raises(2)]
            account_to_dict_frame[OF start_raises(3)]]])
    from start_session_invariant[OF this, of now sid "a_id acc" Anthropic]
    have "pool_invariant uid s4" unfolding start_raises(5) by simp
    then show ?thesis unfolding start_raises(6) by simp
  next
    case (started ended s1 acc s2 d s3 created s4)
    have s1: "pool_invariant uid s1" using e_inv unfolding started(1) by simp
    have o1: "open_sessions s1 = []"
      using end_session_invariant(2)[OF inv, of now qid m ro ended] unfolding started(1) by simp
    note f = frame_trans[OF get_best_account_frame[OF started(2)] account_to_dict_frame[OF started(3)]]
    have s3: "pool_invariant uid s3" by (rule pool_invariant_transfer[OF f s1])
    have o3: "open_sessions s3 = []" using open_sessions_transfer[OF f] o1 by simp
    have fs: "fst (start_session uid now sid (a_id acc) Anthropic s3) = Inr created"
      unfolding started(5) by simp
    have "sessions s4 = sessions s3 @ [created]"
      using start_session_success(2)[OF fs] unfolding started(5) by simp
    moreover have "fin created = None"
      by (subst start_session_success(3)[OF fs]) simp
    ultimately have "open_sessions s4 = [created]"
      using o3 by (simp add: open_sessions_def)
    moreover from start_session_invariant[OF s3, of now sid "a_id acc" Anthropic]
    have "pool_invariant uid s4" unfolding started(5) by simp
    ultimately show ?thesis unfolding started(6) by auto
  qed
  then show "pool_invariant uid (snd ?rot)"
    and "fst ?rot = Inr res \<Longrightarrow>
           open_sessions (snd ?rot) = (case new_session res of None \<Rightarrow> [] | Some x \<Rightarrow> [x])"
    by blast+
qed

lemma step_invariant: "pool_invariant uid s \<Longrightarrow> pool_invariant uid (step uid c s)"
  by (cases c)
     (simp_all add: start_session_invariant end_session_invariant(1) rotate_to_next_invariant(1))

lemma run_invariant: "pool_invariant uid s \<Longrightarrow> pool_invariant uid (run uid cs s)"
  by (induction cs arbitrary: s) (simp_all add: step_invariant)

lemma active_accounts_le_1:
  assumes inv: "pool_invariant uid s"
  shows "length (active_accounts s) \<le> 1"
proof (rule ccontr)
  assume "\<not> length (active_accounts s) \<le> 1"
  then have len: "2 \<le> length (filter activa (accounts s))" by (simp add: active_accounts_def)
  let ?as = "filter activa (accounts s)"
  have d: "distinct (map a_id ?as)"
    using pool_invariantD(4)[OF inv] by (rule distinct_map_filter)
  have l: "0 < length ?as" "1 < length ?as" using len by linarith+
  have m0: "?as ! 0 \<in> set ?as" by (rule nth_mem[OF l(1)])
  have m1: "?as ! 1 \<in> set ?as" by (rule nth_mem[OF l(2)])
  have ne: "a_id (?as ! 0) \<noteq> a_id (?as ! 1)"
  proof -
    have "(map a_id ?as ! 0 = map a_id ?as ! 1) = (0 = (1::nat))"
      by (rule nth_eq_iff_index_eq[OF d]) (use l in simp_all)
    moreover have "map a_id ?as ! 0 = a_id (?as ! 0)" by (rule nth_map[OF l(1)])
    moreover have "map a_id ?as ! 1 = a_id (?as ! 1)" by (rule nth_map[OF l(2)])
    ultimately show ?thesis by simp
  qed
  have a0: "?as ! 0 \<in> set (accounts s)" "activa (?as ! 0)"
    using m0 unfolding set_filter by blast+
  have a1: "?as ! 1 \<in> set (accounts s)" "activa (?as ! 1)"
    using m1 unfolding set_filter by blast+
  from pool_invariantD(3)[OF inv a0] obtain x0 where
    x0: "x0 \<in> set (sessions s)" "fin x0 = None" "s_account_id x0 = a_id (?as ! 0)" by blast
  from pool_invariantD(3)[OF inv a1] obtain x1 where
    x1: "x1 \<in> set (sessions s)" "fin x1 = None" "s_account_id x1 = a_id (?as ! 1)" by blast
  from x0(1) obtain i where i: "i < length (sessions s)" "sessions s ! i = x0"
    by (auto simp: in_set_conv_nth)
  have "x1 = sessions s ! i"
    by (rule filter_single_open[OF pool_invariantD(1)[OF inv] i(1) _ x1(1,2)]) (simp add: i(2) x0(2))
  with i(2) x0(3) x1(3) ne show False by simp
qed

lemma idle_pool_invariant:
  assumes "\<forall>x \<in> set (sessions s). fin x \<noteq> None" "\<forall>a \<in> set (accounts s). \<not> activa a"
    "distinct (map a_id (accounts s))"
  shows "pool_invariant uid s"
proof (rule pool_invariantI)
  have "filter (\<lambda>x. fin x = None) (sessions s) = []"
    unfolding filter_empty_conv using assms(1) by blast
  then show "length (filter (\<lambda>x. fin x = None) (sessions s)) \<le> 1" by simp
qed (use assms in blast)+

lemma run_calls_example: "run ''u'' calls_example pool_no_quotas = pool_after_example"
  by code_simp

section \<open>C1: one open session\<close>

text \<open>
  C1. From a pool with no open session, no active account and unique account keys, any
  sequence of \<^verbatim>\<open>start_session\<close>, \<^verbatim>\<open>end_session\<close> and \<^verbatim>\<open>rotate_to_next\<close> calls
  (returning or raising) leaves at most one session with \<^verbatim>\<open>fin\<close> unset and at most one
  account with \<^verbatim>\<open>activa\<close> set. In every such state \<^verbatim>\<open>start_session\<close> raises and changes
  nothing while a session is open, \<^verbatim>\<open>end_session\<close> that returns leaves no session open,
  and \<^verbatim>\<open>rotate_to_next\<close> that returns leaves open exactly the new session it reports,
  if any.
\<close>

theorem single_open_session:
  assumes "\<forall>x \<in> set (sessions s0). fin x \<noteq> None"
    and "\<forall>a \<in> set (accounts s0). \<not> activa a"
    and "distinct (map a_id (accounts s0))"
  shows "length (open_sessions (run uid calls s0)) \<le> 1 \<and>
         length (active_accounts (run uid calls s0)) \<le> 1 \<and>
         (open_sessions (run uid calls s0) \<noteq> [] \<longrightarrow>
            start_session uid now nid aid p (run uid calls s0) =
              (Inl (ValueError ''Ya hay una sesion activa. Finalizala primero.''),
               run uid calls s0)) \<and>
         (\<forall>res. fst (end_session uid now nid m ro (run uid calls s0)) = Inr res \<longrightarrow>
            open_sessions (snd (end_session uid now nid m ro (run uid calls s0))) = []) \<and>
         (\<forall>res. fst (rotate_to_next uid now nid sid m ro auto_start (run uid calls s0)) = Inr res \<longrightarrow>
            open_sessions (snd (rotate_to_next uid now nid sid m ro auto_start (run uid calls s0))) =
              (case new_session res of None \<Rightarrow> [] | Some x \<Rightarrow> [x]))"
proof -
  let ?s = "run uid calls s0"
  have inv: "pool_invariant uid ?s"
    by (rule run_invariant[OF idle_pool_invariant[OF assms]])
  have "length (open_sessions ?s) \<le> 1"
    using pool_invariantD(1)[OF inv] by (simp add: open_sessions_def)
  moreover have "length (active_accounts ?s) \<le> 1" by (rule active_accounts_le_1[OF inv])
  moreover have "start_session uid now nid aid p ?s =
      (Inl (ValueError ''Ya hay una sesion activa. Finalizala primero.''), ?s)"
    if "open_sessions ?s \<noteq> []"
  proof (cases "get_active_session uid ?s")
    case None
    from get_active_session_None_open(1)[OF inv None] that show ?thesis by simp
  next
    case (Some i)
    then show ?thesis by (rule start_session_active)
  qed
  moreover have "open_sessions (snd (end_session uid now nid m ro ?s)) = []"
    if "fst (end_session uid now nid m ro ?s) = Inr res" for res
    using that by (rule end_session_invariant(2)[OF inv])
  moreover have "open_sessions (snd (rotate_to_next uid now nid sid m ro auto_start ?s)) =
              (case new_session res of None \<Rightarrow> [] | Some x \<Rightarrow> [x])"
    if "fst (rotate_to_next uid now nid sid m ro auto_start ?s) = Inr res" for res
    using that by (rule rotate_to_next_invariant(2)[OF inv])
  ultimately show ?thesis by blast
qed

theorem single_open_session_witness:
  "sessions pool_no_quotas = [] \<and>
   map activa (accounts pool_no_quotas) = [False, False] \<and>
   distinct (map a_id (accounts pool_no_quotas)) \<and>
   length (open_sessions (run ''u'' calls_example pool_no_quotas)) \<le> 1 \<and>
   length (active_accounts (run ''u'' calls_example pool_no_quotas)) \<le> 1 \<and>
   map s_id (open_sessions (run ''u'' calls_example pool_no_quotas)) = [''s3''] \<and>
   fst (start_session ''u'' 300 ''s4'' ''A'' Gemini (run ''u'' calls_example pool_no_quotas)) =
     Inl (ValueError ''Ya hay una sesion activa. Finalizala primero.'')"
proof -
  have h1: "\<forall>x \<in> set (sessions pool_no_quotas). fin x \<noteq> None"
    by (simp add: pool_no_quotas_def)
  have h2: "\<forall>a \<in> set (accounts pool_no_quotas). \<not> activa a"
    by (simp add: pool_no_quotas_def acc_A_def acc_B_def)
  have h3: "distinct (map a_id (accounts pool_no_quotas))"
    by (simp add: pool_no_quotas_def acc_A_def acc_B_def)
  have o: "map s_id (open_sessions pool_after_example) = [''s3'']"
    by (simp add: pool_after_example_def open_sessions_def)
  have ne: "open_sessions pool_after_example \<noteq> []"
    by (simp add: pool_after_example_def open_sessions_def)
  note t = single_open_session[OF h1 h2 h3, of "''u''" calls_example 300 "''s4''" "''A''" Gemini
             Manual None "''s5''" True, unfolded run_calls_example]
  have a: "length (open_sessions pool_after_example) \<le> 1"
          "length (active_accounts pool_after_example) \<le> 1"
    using t by blast+
  have b: "start_session ''u'' 300 ''s4'' ''A'' Gemini pool_after_example =
             (Inl (ValueError ''Ya hay una sesion activa. Finalizala primero.''),
              pool_after_example)"
    using t ne by blast
  show ?thesis
    unfolding run_calls_example b using a o
    by (simp add: pool_no_quotas_def acc_A_def acc_B_def)
qed

section \<open>C6, C10: what ending a session does\<close>

text \<open>
  C6. \<^verbatim>\<open>end_session\<close> returns \<^verbatim>\<open>None\<close> and changes nothing when no session is open for
  the user. When the open session's \<^verbatim>\<open>inicio\<close> is stored offset-naive, the subtraction
  \<^verbatim>\<open>self.fin - self.inicio\<close> raises \<^verbatim>\<open>TypeError\<close>: the session stays open and nothing
  is committed. When \<^verbatim>\<open>inicio\<close> is aware, the session is closed with \<^verbatim>\<open>fin = now\<close>,
  \<^verbatim>\<open>motivo_fin\<close> the reason and \<^verbatim>\<open>duracion = fin - inicio\<close>, the account is rolled up
  and the quota is marked as \<open>marked_quotas\<close> says.
\<close>

theorem end_session_outcomes:
  "(get_active_session uid s = None \<longrightarrow> end_session uid now nid m ro s = (Inr None, s)) \<and>
   (get_active_session uid s = Some i \<and> inicio (sessions s ! i) = Naive t \<longrightarrow>
      end_session uid now nid m ro s = (Inl TypeError, s)) \<and>
   (get_active_session uid s = Some i \<and> inicio (sessions s ! i) = Aware t \<longrightarrow>
      end_session uid now nid m ro s =
        (Inr (Some (closed_session now m (sessions s ! i))),
         s\<lparr>sessions := (sessions s)[i := closed_session now m (sessions s ! i)],
           accounts := rolled_accounts now (sessions s ! i) (accounts s),
           quotas := marked_quotas now nid m ro (sessions s ! i) (quotas s)\<rparr>) \<and>
      fin (closed_session now m (sessions s ! i)) = Some (Aware now) \<and>
      motivo_fin (closed_session now m (sessions s ! i)) = Some m \<and>
      duracion (closed_session now m (sessions s ! i)) = Some (now - t))"
  by (simp add: end_session_cases closed_session_def)

lemma end_session_pool_naive_session:
  "get_active_session ''u'' pool_naive_session = Some 0 \<and>
   inicio (sessions pool_naive_session ! 0) = Naive 100"
  by code_simp

lemma end_session_pool_busy:
  "get_active_session ''u'' pool_busy = Some 0 \<and>
   inicio (sessions pool_busy ! 0) = Aware 100"
  by code_simp

lemma get_active_session_pool_no_quotas: "get_active_session ''u'' pool_no_quotas = None"
  by code_simp

theorem end_session_outcomes_witness:
  "get_active_session ''u'' pool_no_quotas = None \<and>
   end_session ''u'' 500 ''q9'' Manual None pool_no_quotas = (Inr None, pool_no_quotas) \<and>
   get_active_session ''u'' pool_naive_session = Some 0 \<and>
   inicio (sessions pool_naive_session ! 0) = Naive 100 \<and>
   end_session ''u'' 500 ''q9'' Manual None pool_naive_session =
     (Inl TypeError, pool_naive_session) \<and>
   get_active_session ''u'' pool_busy = Some 0 \<and>
   inicio (sessions pool_busy ! 0) = Aware 100 \<and>
   fst (end_session ''u'' 500 ''q9'' Cuota_agotada (Some (Aware 900)) pool_busy) =
     Inr (Some (closed_session 500 Cuota_agotada (sessions pool_busy ! 0))) \<and>
   duracion (closed_session 500 Cuota_agotada (sessions pool_busy ! 0)) = Some 400"
proof -
  note a = end_session_outcomes[of "''u''" pool_no_quotas 500 "''q9''" Manual None 0 0]
  note b = end_session_outcomes[of "''u''" pool_naive_session 500 "''q9''" Manual None 0 100]
  note c = end_session_outcomes[of "''u''" pool_busy 500 "''q9''" Cuota_agotada "Some (Aware 900)" 0 100]
  have 1: "end_session ''u'' 500 ''q9'' Manual None pool_no_quotas = (Inr None, pool_no_quotas)"
    using a get_active_session_pool_no_quotas by blast
  have 2: "end_session ''u'' 500 ''q9'' Manual None pool_naive_session =
             (Inl TypeError, pool_naive_session)"
    using b end_session_pool_naive_session by blast
  have 3: "fst (end_session ''u'' 500 ''q9'' Cuota_agotada (Some (Aware 900)) pool_busy) =
             Inr (Some (closed_session 500 Cuota_agotada (sessions pool_busy ! 0)))"
          "duracion (closed_session 500 Cuota_agotada (sessions pool_busy ! 0)) = Some (500 - 100)"
    using c end_session_pool_busy by simp_all
  show ?thesis
    using 1 2 3 get_active_session_pool_no_quotas end_session_pool_naive_session
      end_session_pool_busy by simp
qed

text \<open>
  C10 as stated fails: with the owning account gone, \<^verbatim>\<open>RotationManager.end_session\<close> does
  not find the open session, returns \<^verbatim>\<open>None\<close> and leaves the session open.
\<close>

theorem end_session_orphan_counterexample:
  "fin (sessions pool_orphan ! 0) = None \<and>
   s_account_id (sessions pool_orphan ! 0) \<notin> set (map a_id (accounts pool_orphan)) \<and>
   end_session ''u'' 500 ''q9'' Manual None pool_orphan = (Inr None, pool_orphan)"
  by code_simp

text \<open>
  C10, amended. \<^verbatim>\<open>Session.end_session\<close>, called on a session whose \<^verbatim>\<open>inicio\<close> is
  aware and whose account row no longer exists, sets \<^verbatim>\<open>fin\<close>, \<^verbatim>\<open>duracion\<close> and
  \<^verbatim>\<open>motivo_fin\<close> and leaves the accounts table as it is. \<^verbatim>\<open>RotationManager.end_session\<close>
  reaches it only through \<^verbatim>\<open>get_active_session\<close>, which joins the accounts: when no open
  session has an account row, it returns \<^verbatim>\<open>None\<close> and changes nothing.
\<close>

theorem end_session_missing_account:
  "(inicio x = Aware t \<and> (\<forall>a \<in> set accs. a_id a \<noteq> s_account_id x) \<longrightarrow>
      Session_end_session now m x accs =
        Inr (x\<lparr>fin := Some (Aware now), duracion := Some (now - t), motivo_fin := Some m\<rparr>,
             accs)) \<and>
   ((\<forall>y \<in> set (sessions s). fin y = None \<longrightarrow>
        (\<forall>a \<in> set (accounts s). a_id a \<noteq> s_account_id y)) \<longrightarrow>
      end_session uid now nid m ro s = (Inr None, s))"
proof (intro conjI impI)
  assume h: "inicio x = Aware t \<and> (\<forall>a \<in> set accs. a_id a \<noteq> s_account_id x)"
  then have "first_index (\<lambda>a. a_id a = s_account_id x) accs = None"
    unfolding first_index_None by blast
  with h show "Session_end_session now m x accs =
        Inr (x\<lparr>fin := Some (Aware now), duracion := Some (now - t), motivo_fin := Some m\<rparr>,
             accs)"
    by (simp add: Session_end_session_aware)
next
  assume h: "\<forall>y \<in> set (sessions s). fin y = None \<longrightarrow>
               (\<forall>a \<in> set (accounts s). a_id a \<noteq> s_account_id y)"
  have "get_active_session uid s = None"
    unfolding get_active_session_def first_index_None using h by blast
  then show "end_session uid now nid m ro s = (Inr None, s)"
    by (simp add: end_session_cases)
qed

theorem end_session_missing_account_witness:
  "inicio session_open_A = Aware 100 \<and>
   map a_id [acc_B] = [''B''] \<and> s_account_id session_open_A = ''A'' \<and>
   Session_end_session 500 Manual session_open_A [acc_B] =
     Inr (session_open_A\<lparr>fin := Some (Aware 500), duracion := Some 400,
                         motivo_fin := Some Manual\<rparr>, [acc_B]) \<and>
   map fin (sessions pool_orphan) = [None] \<and>
   map s_account_id (sessions pool_orphan) = [''A''] \<and>
   map a_id (accounts pool_orphan) = [''B''] \<and>
   end_session ''u'' 500 ''q9'' Manual None pool_orphan = (Inr None, pool_orphan)"
proof -
  have h1: "inicio session_open_A = Aware 100 \<and>
            (\<forall>a \<in> set [acc_B]. a_id a \<noteq> s_account_id session_open_A)"
    by (simp add: session_open_A_def acc_B_def)
  have h2: "\<forall>y \<in> set (sessions pool_orphan). fin y = None \<longrightarrow>
              (\<forall>a \<in> set (accounts pool_orphan). a_id a \<noteq> s_account_id y)"
    by (simp add: pool_orphan_def session_open_A_def acc_B_def)
  note t = end_session_missing_account[of session_open_A 100 "[acc_B]" 500 Manual pool_orphan
             "''u''" "''q9''" None]
  have 1: "Session_end_session 500 Manual session_open_A [acc_B] =
     Inr (session_open_A\<lparr>fin := Some (Aware 500), duracion := Some (500 - 100),
                         motivo_fin := Some Manual\<rparr>, [acc_B])"
    using t h1 by blast
  have 2: "end_session ''u'' 500 ''q9'' Manual None pool_orphan = (Inr None, pool_orphan)"
    using t h2 by blast
  show ?thesis
    unfolding 1 2 by (simp add: session_open_A_def acc_B_def pool_orphan_def)
qed

section \<open>C8: classification\<close>

text \<open>
  C8. The availability of a provider for an account is the answer of \<^verbatim>\<open>is_available\<close> on
  the account's quota row of that provider, and \<^verbatim>\<open>True\<close>, with no error, when the account
  has no such row. \<^verbatim>\<open>get_classification\<close> raises what either check raises (the
  \<^verbatim>\<open>TypeError\<close> of an exhausted row with a naive reset time) and otherwise answers
  \<^verbatim>\<open>disponible\<close> when both checks hold, \<^verbatim>\<open>limite_parcial\<close> when exactly one holds and
  \<^verbatim>\<open>limite_total\<close> when neither does.
\<close>

theorem get_classification_table:
  "fst (is_anthropic_available now a s) =
     (case get_anthropic_quota a s of
        None \<Rightarrow> Inr True
      | Some i \<Rightarrow> fst (is_available now (quotas s ! i))) \<and>
   fst (is_gemini_available now a s) =
     (case get_gemini_quota a s of
        None \<Rightarrow> Inr True
      | Some i \<Rightarrow> fst (is_available now (quotas s ! i))) \<and>
   fst (get_classification now a s) =
     (case fst (is_anthropic_available now a s) of
        Inl e \<Rightarrow> Inl e
      | Inr x \<Rightarrow>
          (case fst (is_gemini_available now a s) of
             Inl e \<Rightarrow> Inl e
           | Inr y \<Rightarrow>
               Inr (if x \<and> y then Cl_disponible
                    else if x \<noteq> y then Cl_limite_parcial
                    else Cl_limite_total)))"
proof (intro conjI)
  show "fst (is_anthropic_available now a s) =
     (case get_anthropic_quota a s of
        None \<Rightarrow> Inr True
      | Some i \<Rightarrow> fst (is_available now (quotas s ! i)))"
    by (simp add: is_anthropic_available_def quota_is_available_def
             split: option.splits prod.splits)
  show "fst (is_gemini_available now a s) =
     (case get_gemini_quota a s of
        None \<Rightarrow> Inr True
      | Some i \<Rightarrow> fst (is_available now (quotas s ! i)))"
    by (simp add: is_gemini_available_def quota_is_available_def
             split: option.splits prod.splits)
  obtain r1 s1 where c1: "is_anthropic_available now a s = (r1, s1)"
    by (cases "is_anthropic_available now a s") auto
  obtain r2 s2 where c2: "is_gemini_available now a s1 = (r2, s2)"
    by (cases "is_gemini_available now a s1") auto
  have g: "fst (is_gemini_available now a s) = r2"
    using gemini_after_anthropic[OF c1] c2 by simp
  show "fst (get_classification now a s) =
     (case fst (is_anthropic_available now a s) of
        Inl e \<Rightarrow> Inl e
      | Inr x \<Rightarrow>
          (case fst (is_gemini_available now a s) of
             Inl e \<Rightarrow> Inl e
           | Inr y \<Rightarrow>
               Inr (if x \<and> y then Cl_disponible
                    else if x \<noteq> y then Cl_limite_parcial
                    else Cl_limite_total)))"
    unfolding g unfolding get_classification_def c1 using c2
    by (cases r1; cases r2) auto
qed

lemma classification_examples:
  "get_anthropic_quota acc_A pool_partial = None"
  "get_gemini_quota acc_A pool_partial = Some 0"
  "fst (is_available 500 (quotas pool_partial ! 0)) = Inr False"
  "get_anthropic_quota acc_B pool_quotas = Some 2"
  "get_gemini_quota acc_B pool_quotas = Some 3"
  "fst (is_available 300 (quotas pool_quotas ! 2)) = Inr False"
  "fst (is_available 500 (quotas pool_quotas ! 2)) = Inr False"
  "fst (is_available 300 (quotas pool_quotas ! 3)) = Inr False"
  "fst (is_available 500 (quotas pool_quotas ! 3)) = Inr True"
  "get_anthropic_quota acc_A pool_quotas = Some 0"
  "fst (is_available 500 (quotas pool_quotas ! 0)) = Inl TypeError"
  "get_anthropic_quota acc_A pool_no_quotas = None"
  "get_gemini_quota acc_A pool_no_quotas = None"
  by code_simp+

theorem get_classification_table_witness:
  "fst (is_anthropic_available 500 acc_A pool_no_quotas) = Inr True \<and>
   fst (is_gemini_available 500 acc_A pool_no_quotas) = Inr True \<and>
   fst (get_classification 500 acc_A pool_no_quotas) = Inr Cl_disponible \<and>
   fst (is_anthropic_available 500 acc_A pool_partial) = Inr True \<and>
   fst (is_gemini_available 500 acc_A pool_partial) = Inr False \<and>
   fst (get_classification 500 acc_A pool_partial) = Inr Cl_limite_parcial \<and>
   fst (is_anthropic_available 500 acc_B pool_quotas) = Inr False \<and>
   fst (is_gemini_available 500 acc_B pool_quotas) = Inr True \<and>
   fst (get_classification 500 acc_B pool_quotas) = Inr Cl_limite_parcial \<and>
   fst (is_anthropic_available 300 acc_B pool_quotas) = Inr False \<and>
   fst (is_gemini_available 300 acc_B pool_quotas) = Inr False \<and>
   fst (get_classification 300 acc_B pool_quotas) = Inr Cl_limite_total \<and>
   fst (is_anthropic_available 500 acc_A pool_quotas) = Inl TypeError \<and>
   fst (get_classification 500 acc_A pool_quotas) = Inl TypeError"
proof -
  note e = classification_examples
  note t1 = get_classification_table[of 500 acc_A pool_no_quotas, unfolded e option.case]
  note t2 = get_classification_table[of 500 acc_A pool_partial, unfolded e option.case]
  note t3 = get_classification_table[of 500 acc_B pool_quotas, unfolded e option.case]
  note t4 = get_classification_table[of 300 acc_B pool_quotas, unfolded e option.case]
  note t5 = get_classification_table[of 500 acc_A pool_quotas, unfolded e option.case]
  have a1: "fst (is_anthropic_available 500 acc_A pool_no_quotas) = Inr True"
    and g1: "fst (is_gemini_available 500 acc_A pool_no_quotas) = Inr True"
    using t1 by blast+
  have a2: "fst (is_anthropic_available 500 acc_A pool_partial) = Inr True"
    and g2: "fst (is_gemini_available 500 acc_A pool_partial) = Inr False"
    using t2 by blast+
  have a3: "fst (is_anthropic_available 500 acc_B pool_quotas) = Inr False"
    and g3: "fst (is_gemini_available 500 acc_B pool_quotas) = Inr True"
    using t3 by blast+
  have a4: "fst (is_anthropic_available 300 acc_B pool_quotas) = Inr False"
    and g4: "fst (is_gemini_available 300 acc_B pool_quotas) = Inr False"
    using t4 by blast+
  have a5: "fst (is_anthropic_available 500 acc_A pool_quotas) = Inl TypeError"
    using t5 by blast
  have c1: "fst (get_classification 500 acc_A pool_no_quotas) = Inr Cl_disponible"
    using t1 unfolding a1 g1 by simp
  have c2: "fst (get_classification 500 acc_A pool_partial) = Inr Cl_limite_parcial"
    using t2 unfolding a2 g2 by simp
  have c3: "fst (get_classification 500 acc_B pool_quotas) = Inr Cl_limite_parcial"
    using t3 unfolding a3 g3 by simp
  have c4: "fst (get_classification 300 acc_B pool_quotas) = Inr Cl_limite_total"
    using t4 unfolding a4 g4 by simp
  have c5: "fst (get_classification 500 acc_A pool_quotas) = Inl TypeError"
    using t5 unfolding a5 by simp
  show ?thesis
    unfolding a1 g1 a2 g2 a3 g3 a4 g4 a5 c1 c2 c3 c4 c5 by simp
qed

section \<open>C7: the preconditions of start_session\<close>

lemma provider_of_token_token: "provider_of_token (provider_token p) = Some p"
  by (cases p) (simp_all add: provider_of_token_def provider_token_def)

lemma provider_token_nonempty: "provider_token p \<noteq> []"
  by (cases p) (simp_all add: provider_token_def)

lemma start_session_route_ValueError:
  assumes "fst (start_session uid now nid aid p s) = Inl (ValueError msg)" "aid \<noteq> []"
  shows "start_session_route uid now nid
           (Some \<lparr>req_account_id = Some aid, req_provider = Some (provider_token p)\<rparr>) s =
         (Inr (400, Error_body msg), s)"
proof -
  have "snd (start_session uid now nid aid p s) = s"
    by (rule start_session_unchanged[OF assms(1)])
  with assms(1) have "start_session uid now nid aid p s = (Inl (ValueError msg), s)"
    by (cases "start_session uid now nid aid p s") simp
  then show ?thesis
    using assms(2)
    by (simp add: start_session_route_def provider_of_token_token provider_token_nonempty)
qed

text \<open>
  C7. \<^verbatim>\<open>start_session\<close> checks in this order and raises at the first check that fails,
  changing nothing: an open session of the user raises
  \<^verbatim>\<open>ValueError("Ya hay una sesion activa. Finalizala primero.")\<close>; otherwise an account
  id unknown for the user raises \<^verbatim>\<open>ValueError("Cuenta no encontrada")\<close>; otherwise a
  quota check of the requested provider that answers false raises
  \<^verbatim>\<open>ValueError("Cuota de <provider> agotada para esta cuenta")\<close>, and one that raises
  lets its exception through. A session is returned only when no session was open, the
  account was found and the check answered true; it is then appended with \<^verbatim>\<open>fin\<close>
  unset and the account's \<^verbatim>\<open>activa\<close> is set. The three precondition failures are of
  the one class \<^verbatim>\<open>ValueError\<close>, and the route answers each of them with status 400,
  the open session included.
\<close>

theorem start_session_preconditions:
  "(get_active_session uid s \<noteq> None \<longrightarrow>
      start_session uid now nid aid p s =
        (Inl (ValueError ''Ya hay una sesion activa. Finalizala primero.''), s)) \<and>
   (get_active_session uid s = None \<and>
    (\<forall>a \<in> set (accounts s). \<not> (a_id a = aid \<and> user_id a = uid)) \<longrightarrow>
      start_session uid now nid aid p s = (Inl (ValueError ''Cuenta no encontrada''), s)) \<and>
   (get_active_session uid s = None \<and>
    first_index (\<lambda>a. a_id a = aid \<and> user_id a = uid) (accounts s) = Some j \<and>
    fst (is_provider_available now p (accounts s ! j) s) = Inr False \<longrightarrow>
      start_session uid now nid aid p s = (Inl (ValueError (agotada_message p)), s)) \<and>
   (get_active_session uid s = None \<and>
    first_index (\<lambda>a. a_id a = aid \<and> user_id a = uid) (accounts s) = Some j \<and>
    fst (is_provider_available now p (accounts s ! j) s) = Inl e \<longrightarrow>
      start_session uid now nid aid p s = (Inl e, s)) \<and>
   (get_active_session uid s = None \<and>
    first_index (\<lambda>a. a_id a = aid \<and> user_id a = uid) (accounts s) = Some j \<and>
    fst (is_provider_available now p (accounts s ! j) s) = Inr True \<longrightarrow>
      fst (start_session uid now nid aid p s) =
        Inr \<lparr>s_id = nid, s_account_id = aid, s_provider = p, inicio = Aware now,
              fin = None, duracion = None, motivo_fin = None\<rparr> \<and>
      sessions (snd (start_session uid now nid aid p s)) =
        sessions s @ [\<lparr>s_id = nid, s_account_id = aid, s_provider = p, inicio = Aware now,
                       fin = None, duracion = None, motivo_fin = None\<rparr>] \<and>
      accounts (snd (start_session uid now nid aid p s)) =
        (accounts s)[j := (accounts s ! j)\<lparr>activa := True\<rparr>]) \<and>
   (fst (start_session uid now nid aid p s) = Inr x \<longrightarrow>
      get_active_session uid s = None \<and>
      (\<exists>k. first_index (\<lambda>a. a_id a = aid \<and> user_id a = uid) (accounts s) = Some k \<and>
           fst (is_provider_available now p (accounts s ! k) s) = Inr True)) \<and>
   ''Ya hay una sesion activa. Finalizala primero.'' \<noteq> ''Cuenta no encontrada'' \<and>
   ''Ya hay una sesion activa. Finalizala primero.'' \<noteq> agotada_message p \<and>
   ''Cuenta no encontrada'' \<noteq> agotada_message p \<and>
   exception_class (ValueError ''Ya hay una sesion activa. Finalizala primero.'') =
     exception_class (ValueError ''Cuenta no encontrada'') \<and>
   exception_class (ValueError ''Cuenta no encontrada'') =
     exception_class (ValueError (agotada_message p)) \<and>
   (fst (start_session uid now nid aid p s) = Inl (ValueError msg) \<and> aid \<noteq> [] \<longrightarrow>
      start_session_route uid now nid
        (Some \<lparr>req_account_id = Some aid, req_provider = Some (provider_token p)\<rparr>) s =
      (Inr (400, Error_body msg), s))"
proof (intro conjI impI)
  assume "get_active_session uid s \<noteq> None"
  then obtain i where "get_active_session uid s = Some i" by blast
  then show "start_session uid now nid aid p s =
        (Inl (ValueError ''Ya hay una sesion activa. Finalizala primero.''), s)"
    by (rule start_session_active)
next
  assume h: "get_active_session uid s = None \<and>
    (\<forall>a \<in> set (accounts s). \<not> (a_id a = aid \<and> user_id a = uid))"
  then have "first_index (\<lambda>a. a_id a = aid \<and> user_id a = uid) (accounts s) = None"
    unfolding first_index_None by blast
  with h show "start_session uid now nid aid p s = (Inl (ValueError ''Cuenta no encontrada''), s)"
    using start_session_not_found by blast
next
  assume "get_active_session uid s = None \<and>
    first_index (\<lambda>a. a_id a = aid \<and> user_id a = uid) (accounts s) = Some j \<and>
    fst (is_provider_available now p (accounts s ! j) s) = Inr False"
  then show "start_session uid now nid aid p s = (Inl (ValueError (agotada_message p)), s)"
    using start_session_agotada by blast
next
  assume "get_active_session uid s = None \<and>
    first_index (\<lambda>a. a_id a = aid \<and> user_id a = uid) (accounts s) = Some j \<and>
    fst (is_provider_available now p (accounts s ! j) s) = Inl e"
  then show "start_session uid now nid aid p s = (Inl e, s)"
    using start_session_raises by blast
next
  assume h: "get_active_session uid s = None \<and>
    first_index (\<lambda>a. a_id a = aid \<and> user_id a = uid) (accounts s) = Some j \<and>
    fst (is_provider_available now p (accounts s ! j) s) = Inr True"
  obtain s1 where c: "is_provider_available now p (accounts s ! j) s = (Inr True, s1)"
    using h by (cases "is_provider_available now p (accounts s ! j) s") auto
  note ok = start_session_ok[OF conjunct1[OF h] conjunct1[OF conjunct2[OF h]] c, of nid]
  show "fst (start_session uid now nid aid p s) =
        Inr \<lparr>s_id = nid, s_account_id = aid, s_provider = p, inicio = Aware now,
              fin = None, duracion = None, motivo_fin = None\<rparr>"
    unfolding ok by simp
  show "sessions (snd (start_session uid now nid aid p s)) =
        sessions s @ [\<lparr>s_id = nid, s_account_id = aid, s_provider = p, inicio = Aware now,
                       fin = None, duracion = None, motivo_fin = None\<rparr>]"
    unfolding ok by simp
  show "accounts (snd (start_session uid now nid aid p s)) =
        (accounts s)[j := (accounts s ! j)\<lparr>activa := True\<rparr>]"
    unfolding ok by simp
next
  assume r: "fst (start_session uid now nid aid p s) = Inr x"
  show act: "get_active_session uid s = None"
    by (rule start_session_success(1)[OF r])
  obtain k where k: "first_index (\<lambda>a. a_id a = aid \<and> user_id a = uid) (accounts s) = Some k"
    using r act
    by (cases "first_index (\<lambda>a. a_id a = aid \<and> user_id a = uid) (accounts s)")
       (simp_all add: start_session_not_found)
  have "fst (is_provider_available now p (accounts s ! k) s) = Inr True"
  proof (cases "fst (is_provider_available now p (accounts s ! k) s)")
    case (Inl e')
    from start_session_raises[OF act k this, of nid] r show ?thesis by simp
  next
    case (Inr b)
    show ?thesis
    proof (cases b)
      case True
      with Inr show ?thesis by simp
    next
      case False
      with Inr start_session_agotada[OF act k, of now p nid] r show ?thesis by simp
    qed
  qed
  with k show "\<exists>k. first_index (\<lambda>a. a_id a = aid \<and> user_id a = uid) (accounts s) = Some k \<and>
           fst (is_provider_available now p (accounts s ! k) s) = Inr True"
    by blast
next
  assume "fst (start_session uid now nid aid p s) = Inl (ValueError msg) \<and> aid \<noteq> []"
  then show "start_session_route uid now nid
        (Some \<lparr>req_account_id = Some aid, req_provider = Some (provider_token p)\<rparr>) s =
      (Inr (400, Error_body msg), s)"
    using start_session_route_ValueError by blast
qed (cases p; simp add: agotada_message_def)+

lemma start_session_examples:
  "get_active_session ''u'' pool_busy \<noteq> None"
  "get_active_session ''u'' pool_no_quotas = None"
  "map a_id (accounts pool_no_quotas) = [''A'', ''B'']"
  "get_active_session ''u'' pool_partial = None"
  "first_index (\<lambda>a. a_id a = ''A'' \<and> user_id a = ''u'') (accounts pool_partial) = Some 0"
  "fst (is_provider_available 500 Gemini (accounts pool_partial ! 0) pool_partial) = Inr False"
  "fst (is_provider_available 500 Anthropic (accounts pool_partial ! 0) pool_partial) = Inr True"
  "get_active_session ''u'' pool_quotas = None"
  "first_index (\<lambda>a. a_id a = ''A'' \<and> user_id a = ''u'') (accounts pool_quotas) = Some 0"
  "fst (is_provider_available 500 Anthropic (accounts pool_quotas ! 0) pool_quotas) =
     Inl TypeError"
  by code_simp+

theorem start_session_preconditions_witness:
  "get_active_session ''u'' pool_busy \<noteq> None \<and>
   start_session ''u'' 500 ''s2'' ''B'' Anthropic pool_busy =
     (Inl (ValueError ''Ya hay una sesion activa. Finalizala primero.''), pool_busy) \<and>
   start_session_route ''u'' 500 ''s2''
       (Some \<lparr>req_account_id = Some ''B'', req_provider = Some ''anthropic''\<rparr>) pool_busy =
     (Inr (400, Error_body ''Ya hay una sesion activa. Finalizala primero.''), pool_busy) \<and>
   get_active_session ''u'' pool_no_quotas = None \<and>
   map a_id (accounts pool_no_quotas) = [''A'', ''B''] \<and>
   start_session ''u'' 500 ''s2'' ''Z'' Anthropic pool_no_quotas =
     (Inl (ValueError ''Cuenta no encontrada''), pool_no_quotas) \<and>
   start_session_route ''u'' 500 ''s2''
       (Some \<lparr>req_account_id = Some ''Z'', req_provider = Some ''anthropic''\<rparr>) pool_no_quotas =
     (Inr (400, Error_body ''Cuenta no encontrada''), pool_no_quotas) \<and>
   fst (is_provider_available 500 Gemini (accounts pool_partial ! 0) pool_partial) = Inr False \<and>
   start_session ''u'' 500 ''s2'' ''A'' Gemini pool_partial =
     (Inl (ValueError ''Cuota de Gemini agotada para esta cuenta''), pool_partial) \<and>
   fst (is_provider_available 500 Anthropic (accounts pool_quotas ! 0) pool_quotas) =
     Inl TypeError \<and>
   start_session ''u'' 500 ''s2'' ''A'' Anthropic pool_quotas = (Inl TypeError, pool_quotas) \<and>
   fst (is_provider_available 500 Anthropic (accounts pool_partial ! 0) pool_partial) = Inr True \<and>
   map fin (sessions (snd (start_session ''u'' 500 ''s2'' ''A'' Anthropic pool_partial))) = [None] \<and>
   map activa (accounts (snd (start_session ''u'' 500 ''s2'' ''A'' Anthropic pool_partial))) = [True]"
proof -
  note e = start_session_examples
  have nf: "\<forall>a \<in> set (accounts pool_no_quotas). \<not> (a_id a = ''Z'' \<and> user_id a = ''u'')"
    by (simp add: pool_no_quotas_def acc_A_def acc_B_def)
  note t1 = start_session_preconditions[where uid="''u''" and s=pool_busy and now=500
              and nid="''s2''" and aid="''B''" and p=Anthropic
              and msg="''Ya hay una sesion activa. Finalizala primero.''"]
  note t2 = start_session_preconditions[where uid="''u''" and s=pool_no_quotas and now=500
              and nid="''s2''" and aid="''Z''" and p=Anthropic
              and msg="''Cuenta no encontrada''"]
  note t3 = start_session_preconditions[where uid="''u''" and s=pool_partial and now=500
              and nid="''s2''" and aid="''A''" and p=Gemini and j=0]
  note t4 = start_session_preconditions[where uid="''u''" and s=pool_quotas and now=500
              and nid="''s2''" and aid="''A''" and p=Anthropic and j=0 and e=TypeError]
  note t5 = start_session_preconditions[where uid="''u''" and s=pool_partial and now=500
              and nid="''s2''" and aid="''A''" and p=Anthropic and j=0]
  note route1 = t1[THEN conjunct2, THEN conjunct2, THEN conjunct2, THEN conjunct2,
                  THEN conjunct2, THEN conjunct2, THEN conjunct2, THEN conjunct2,
                  THEN conjunct2, THEN conjunct2, THEN conjunct2]
  note route2 = t2[THEN conjunct2, THEN conjunct2, THEN conjunct2, THEN conjunct2,
                  THEN conjunct2, THEN conjunct2, THEN conjunct2, THEN conjunct2,
                  THEN conjunct2, THEN conjunct2, THEN conjunct2]
  have 1: "start_session ''u'' 500 ''s2'' ''B'' Anthropic pool_busy =
     (Inl (ValueError ''Ya hay una sesion activa. Finalizala primero.''), pool_busy)"
    by (rule mp[OF t1[THEN conjunct1] e(1)])
  have r1: "start_session_route ''u'' 500 ''s2''
       (Some \<lparr>req_account_id = Some ''B'', req_provider = Some (provider_token Anthropic)\<rparr>)
       pool_busy =
     (Inr (400, Error_body ''Ya hay una sesion activa. Finalizala primero.''), pool_busy)"
    by (rule mp[OF route1]) (simp add: 1)
  have 2: "start_session ''u'' 500 ''s2'' ''Z'' Anthropic pool_no_quotas =
     (Inl (ValueError ''Cuenta no encontrada''), pool_no_quotas)"
    by (rule mp[OF t2[THEN conjunct2, THEN conjunct1] conjI[OF e(2) nf]])
  have r2: "start_session_route ''u'' 500 ''s2''
       (Some \<lparr>req_account_id = Some ''Z'', req_provider = Some (provider_token Anthropic)\<rparr>)
       pool_no_quotas =
     (Inr (400, Error_body ''Cuenta no encontrada''), pool_no_quotas)"
    by (rule mp[OF route2]) (simp add: 2)
  have 3: "start_session ''u'' 500 ''s2'' ''A'' Gemini pool_partial =
     (Inl (ValueError (agotada_message Gemini)), pool_partial)"
    by (rule mp[OF t3[THEN conjunct2, THEN conjunct2, THEN conjunct1]
                   conjI[OF e(4) conjI[OF e(5) e(6)]]])
  have 4: "start_session ''u'' 500 ''s2'' ''A'' Anthropic pool_quotas = (Inl TypeError, pool_quotas)"
    by (rule mp[OF t4[THEN conjunct2, THEN conjunct2, THEN conjunct2, THEN conjunct1]
                   conjI[OF e(8) conjI[OF e(9) e(10)]]])
  note ok = mp[OF t5[THEN conjunct2, THEN conjunct2, THEN conjunct2, THEN conjunct2,
                     THEN conjunct1] conjI[OF e(4) conjI[OF e(5) e(7)]]]
  have 5: "sessions (snd (start_session ''u'' 500 ''s2'' ''A'' Anthropic pool_partial)) =
        sessions pool_partial @ [\<lparr>s_id = ''s2'', s_account_id = ''A'', s_provider = Anthropic,
           inicio = Aware 500, fin = None, duracion = None, motivo_fin = None\<rparr>]"
     "accounts (snd (start_session ''u'' 500 ''s2'' ''A'' Anthropic pool_partial)) =
        (accounts pool_partial)[0 := (accounts pool_partial ! 0)\<lparr>activa := True\<rparr>]"
    using ok by (rule conjunct1[OF conjunct2], rule conjunct2[OF conjunct2])
  show ?thesis
    unfolding 1 2 3 4 5 r1[unfolded provider_token_def provider.case]
      r2[unfolded provider_token_def provider.case]
    using e
    by (simp add: agotada_message_def pool_partial_def acc_A_def)
qed

section \<open>Availability answers are stable\<close>

lemma settlesD:
  assumes "settles now s s'"
  shows "accounts s' = accounts s" "sessions s' = sessions s"
    "length (quotas s') = length (quotas s)"
    "\<And>k. k < length (quotas s) \<Longrightarrow>
       quotas s' ! k = quotas s ! k \<or>
       (fst (is_available now (quotas s ! k)) = Inr True \<and>
        quotas s' ! k = reset (quotas s ! k))"
  using assms unfolding settles_def by blast+

lemma settlesI:
  assumes "accounts s' = accounts s" "sessions s' = sessions s"
    "length (quotas s') = length (quotas s)"
    "\<And>k. k < length (quotas s) \<Longrightarrow>
       quotas s' ! k = quotas s ! k \<or>
       (fst (is_available now (quotas s ! k)) = Inr True \<and>
        quotas s' ! k = reset (quotas s ! k))"
  shows "settles now s s'"
  unfolding settles_def using assms by blast

lemma settles_refl: "settles now s s"
  by (rule settlesI) simp_all

lemma is_available_reset:
  "is_available now (reset q) = (Inr True, reset q)"
  by (simp add: is_available_cases reset_def)

lemma reset_reset: "reset (reset q) = reset q"
  by (simp add: reset_def)

lemma reset_keys:
  "q_account_id (reset q) = q_account_id q" "q_provider (reset q) = q_provider q"
  by (simp_all add: reset_def)

lemma is_available_snd:
  "snd (is_available now q) = q \<or>
   (fst (is_available now q) = Inr True \<and> snd (is_available now q) = reset q)"
  by (simp add: is_available_cases split: option.splits datetime.splits)

lemma settles_row_answer:
  assumes "q' = q \<or> (fst (is_available now q) = Inr True \<and> q' = reset q)"
  shows "fst (is_available now q') = fst (is_available now q)"
  using assms by (auto simp: is_available_reset)

lemma settles_row_keys:
  assumes "q' = q \<or> (fst (is_available now q) = Inr True \<and> q' = reset q)"
  shows "q_account_id q' = q_account_id q" "q_provider q' = q_provider q"
  using assms by (auto simp: reset_keys)

lemma settles_row_trans:
  assumes "q' = q \<or> (fst (is_available now q) = Inr True \<and> q' = reset q)"
    and "q'' = q' \<or> (fst (is_available now q') = Inr True \<and> q'' = reset q')"
  shows "q'' = q \<or> (fst (is_available now q) = Inr True \<and> q'' = reset q)"
  using assms by (auto simp: is_available_reset reset_reset)

lemma settles_trans:
  assumes a: "settles now s s'" and b: "settles now s' s''"
  shows "settles now s s''"
proof (rule settlesI)
  show "accounts s'' = accounts s" using settlesD(1)[OF a] settlesD(1)[OF b] by simp
  show "sessions s'' = sessions s" using settlesD(2)[OF a] settlesD(2)[OF b] by simp
  show "length (quotas s'') = length (quotas s)"
    using settlesD(3)[OF a] settlesD(3)[OF b] by simp
next
  fix k assume k: "k < length (quotas s)"
  then have k': "k < length (quotas s')" using settlesD(3)[OF a] by simp
  show "quotas s'' ! k = quotas s ! k \<or>
       (fst (is_available now (quotas s ! k)) = Inr True \<and>
        quotas s'' ! k = reset (quotas s ! k))"
    by (rule settles_row_trans[OF settlesD(4)[OF a k] settlesD(4)[OF b k']])
qed

lemma settles_frame:
  "settles now s s' \<Longrightarrow> accounts s' = accounts s \<and> sessions s' = sessions s"
  by (simp add: settlesD)

lemma settles_keys:
  assumes "settles now s s'"
  shows "map q_account_id (quotas s') = map q_account_id (quotas s)"
    and "map q_provider (quotas s') = map q_provider (quotas s)"
proof -
  note len = settlesD(3)[OF assms]
  show "map q_account_id (quotas s') = map q_account_id (quotas s)"
  proof (rule nth_equalityI)
    show "length (map q_account_id (quotas s')) = length (map q_account_id (quotas s))"
      using len by simp
  next
    fix k assume "k < length (map q_account_id (quotas s'))"
    then have k: "k < length (quotas s)" using len by simp
    then have k': "k < length (quotas s')" using len by simp
    show "map q_account_id (quotas s') ! k = map q_account_id (quotas s) ! k"
      unfolding nth_map[OF k] nth_map[OF k']
      by (rule settles_row_keys(1)[OF settlesD(4)[OF assms k]])
  qed
  show "map q_provider (quotas s') = map q_provider (quotas s)"
  proof (rule nth_equalityI)
    show "length (map q_provider (quotas s')) = length (map q_provider (quotas s))"
      using len by simp
  next
    fix k assume "k < length (map q_provider (quotas s'))"
    then have k: "k < length (quotas s)" using len by simp
    then have k': "k < length (quotas s')" using len by simp
    show "map q_provider (quotas s') ! k = map q_provider (quotas s) ! k"
      unfolding nth_map[OF k] nth_map[OF k']
      by (rule settles_row_keys(2)[OF settlesD(4)[OF assms k]])
  qed
qed

lemma quota_is_available_settles:
  assumes "i < length (quotas s)"
  shows "settles now s (snd (quota_is_available now i s))"
proof -
  obtain r q' where c: "is_available now (quotas s ! i) = (r, q')"
    by (cases "is_available now (quotas s ! i)") auto
  have res: "snd (quota_is_available now i s) = s\<lparr>quotas := (quotas s)[i := q']\<rparr>"
    by (simp add: quota_is_available_def c)
  have row: "q' = quotas s ! i \<or>
             (fst (is_available now (quotas s ! i)) = Inr True \<and> q' = reset (quotas s ! i))"
    using is_available_snd[of now "quotas s ! i"] unfolding c by simp
  show ?thesis
    unfolding res
  proof (rule settlesI)
    fix k assume k: "k < length (quotas s)"
    show "quotas (s\<lparr>quotas := (quotas s)[i := q']\<rparr>) ! k = quotas s ! k \<or>
       (fst (is_available now (quotas s ! k)) = Inr True \<and>
        quotas (s\<lparr>quotas := (quotas s)[i := q']\<rparr>) ! k = reset (quotas s ! k))"
    proof (cases "k = i")
      case True
      with row k show ?thesis by simp
    next
      case False
      then show ?thesis by simp
    qed
  qed simp_all
qed

lemma is_anthropic_available_settles:
  "settles now s (snd (is_anthropic_available now a s))"
proof (cases "get_anthropic_quota a s")
  case None
  then show ?thesis by (simp add: is_anthropic_available_def settles_refl)
next
  case (Some i)
  then have "i < length (quotas s)"
    unfolding get_anthropic_quota_def by (auto dest: first_index_Some)
  from quota_is_available_settles[OF this] Some show ?thesis
    by (simp add: is_anthropic_available_def)
qed

lemma is_gemini_available_settles:
  "settles now s (snd (is_gemini_available now a s))"
proof (cases "get_gemini_quota a s")
  case None
  then show ?thesis by (simp add: is_gemini_available_def settles_refl)
next
  case (Some i)
  then have "i < length (quotas s)"
    unfolding get_gemini_quota_def by (auto dest: first_index_Some)
  from quota_is_available_settles[OF this] Some show ?thesis
    by (simp add: is_gemini_available_def)
qed

lemma is_provider_available_settles:
  "settles now s (snd (is_provider_available now p a s))"
  by (cases p)
     (simp_all add: is_provider_available_def is_anthropic_available_settles
        is_gemini_available_settles)

lemma is_provider_available_fst:
  "fst (is_provider_available now p a s) =
     (case first_index (\<lambda>q. q_account_id q = a_id a \<and> q_provider q = p) (quotas s) of
        None \<Rightarrow> Inr True
      | Some i \<Rightarrow> fst (is_available now (quotas s ! i)))"
  by (cases p)
     (simp_all add: is_provider_available_def is_anthropic_available_def
        is_gemini_available_def get_anthropic_quota_def get_gemini_quota_def
        quota_is_available_def split: option.splits prod.splits)

lemma is_provider_available_stable:
  assumes "settles now s s'"
  shows "fst (is_provider_available now p a s') = fst (is_provider_available now p a s)"
proof -
  let ?P = "\<lambda>q. q_account_id q = a_id a \<and> q_provider q = p"
  have idx: "first_index ?P (quotas s') = first_index ?P (quotas s)"
    by (rule first_index_keys[OF settles_keys[OF assms]])
  show ?thesis
  proof (cases "first_index ?P (quotas s)")
    case None
    with idx show ?thesis by (simp add: is_provider_available_fst)
  next
    case (Some i)
    then have i: "i < length (quotas s)" by (auto dest: first_index_Some)
    have "fst (is_available now (quotas s' ! i)) = fst (is_available now (quotas s ! i))"
      by (rule settles_row_answer[OF settlesD(4)[OF assms i]])
    with idx Some show ?thesis by (simp add: is_provider_available_fst)
  qed
qed

lemma account_matches_Some:
  "account_matches now (Some p) a s = is_provider_available now p a s"
  by (cases p) (simp_all add: is_provider_available_def)

lemma available_loop_pure:
  "fst (available_loop now (Some p) accs av s) =
     pure_available (\<lambda>a. fst (is_provider_available now p a s)) accs av \<and>
   settles now s (snd (available_loop now (Some p) accs av s))"
proof (induction accs arbitrary: av s)
  case Nil
  show ?case by (simp add: settles_refl)
next
  case (Cons a rest)
  obtain r s1 where c: "is_provider_available now p a s = (r, s1)"
    by (cases "is_provider_available now p a s") auto
  have st: "settles now s s1" using is_provider_available_settles[of now s p a] c by simp
  show ?case
  proof (cases r)
    case (Inl e)
    with c st show ?thesis by (simp add: account_matches_Some)
  next
    case (Inr b)
    let ?av = "if b then av @ [a] else av"
    have loop: "available_loop now (Some p) (a # rest) av s =
                available_loop now (Some p) rest ?av s1"
      using c Inr by (simp add: account_matches_Some)
    have f: "(\<lambda>a. fst (is_provider_available now p a s1)) =
             (\<lambda>a. fst (is_provider_available now p a s))"
      by (rule ext) (rule is_provider_available_stable[OF st])
    have "fst (available_loop now (Some p) rest ?av s1) =
            pure_available (\<lambda>a. fst (is_provider_available now p a s)) rest ?av"
      using Cons.IH[of ?av s1] unfolding f by simp
    moreover have "pure_available (\<lambda>a. fst (is_provider_available now p a s)) (a # rest) av =
            pure_available (\<lambda>a. fst (is_provider_available now p a s)) rest ?av"
      using c Inr by simp
    moreover have "settles now s (snd (available_loop now (Some p) rest ?av s1))"
      by (rule settles_trans[OF st conjunct2[OF Cons.IH[of ?av s1]]])
    ultimately show ?thesis unfolding loop by simp
  qed
qed

lemma pure_available_Inr:
  "pure_available f accs av = Inr res \<Longrightarrow>
     res = av @ filter (\<lambda>a. f a = Inr True) accs \<and> (\<forall>a \<in> set accs. \<exists>b. f a = Inr b)"
proof (induction accs arbitrary: av)
  case Nil
  then show ?case by simp
next
  case (Cons a rest)
  show ?case
  proof (cases "f a")
    case (Inl e)
    with Cons.prems show ?thesis by simp
  next
    case (Inr b)
    with Cons.prems have "pure_available f rest (if b then av @ [a] else av) = Inr res" by simp
    from Cons.IH[OF this] Inr show ?thesis by (cases b) auto
  qed
qed

end
